theory Spec2Isabelle
  imports Main "HOL-Library.AList"
begin

section \<open>The host environment\<close>

text \<open>
  The pooler of \<^verbatim>\<open>UnrealObjectPooler.cpp\<close> works on actors that the engine owns. A pointer
  is an optional handle (\<open>None\<close> is \<^verbatim>\<open>nullptr\<close>), an actor handle is an index into the
  world's actor table, and a handle once given out is never given out again. The table keeps
  the entry of a destroyed actor, with \<open>bValid\<close> off, so that \<^verbatim>\<open>IsValid\<close> can be asked
  of a stale pointer as the source does.
\<close>

type_synonym handle = nat
type_synonym UClass = nat
type_synonym FVector = "int \<times> int \<times> int"
type_synonym FRotator = "int \<times> int \<times> int"

datatype EPoolType = Nodes | NodesSpawner | GameObjects | Billboards

datatype error = NullDereference

text \<open>
  What the pooler reads and writes of an actor: liveness, the three switches of
  \<^verbatim>\<open>SetActorActive\<close>, the activity flag of each attached component, the attachment parent,
  the placement, and the label and name. Coordinates are carried and never computed with.
\<close>

record AActor =
  bValid :: bool
  bHidden :: bool
  bCollision :: bool
  bTickEnabled :: bool
  Components :: "bool list"
  AttachParent :: "handle option"
  Location :: FVector
  Rotation :: FRotator
  ActorLabel :: string
  ActorName :: string

record FActorPool =
  InactiveActors :: "handle option list"
  PoolRoot :: "handle option"

text \<open>
  The subsystem's four members, together with the part of the world it acts on: whether
  \<^verbatim>\<open>GetWorld()\<close> yields a world, the actor table, and the warnings written by \<^verbatim>\<open>UE_LOG\<close>.
  A \<^verbatim>\<open>TMap\<close> is an association list in insertion order with one pair for each key.
\<close>

record pooler =
  ObjectPools :: "(UClass option \<times> FActorPool) list"
  ActorToClassMap :: "(handle option \<times> UClass option) list"
  PoolRoots :: "(EPoolType \<times> handle option) list"
  MainPoolRoot :: "handle option"
  WorldAvailable :: bool
  Actors :: "AActor list"
  Log :: "string list"

text \<open>
  The engine decides whether an actor of a class can be constructed, and with which
  components and defaults: \<open>host actors cls\<close> is the new actor, or \<open>None\<close> when the engine
  refuses.
\<close>

type_synonym host = "AActor list \<Rightarrow> UClass \<Rightarrow> AActor option"

definition AActor_StaticClass :: UClass where
  "AActor_StaticClass = 0"

definition ZeroVector :: FVector where
  "ZeroVector = (0, 0, 0)"

definition ZeroRotator :: FRotator where
  "ZeroRotator = (0, 0, 0)"

subsection \<open>Containers\<close>

definition Find :: "('k \<times> 'v) list \<Rightarrow> 'k \<Rightarrow> 'v option" where
  "Find m k = map_of m k"

definition Add :: "('k \<times> 'v) list \<Rightarrow> 'k \<Rightarrow> 'v \<Rightarrow> ('k \<times> 'v) list" where
  "Add m k v = AList.update k v m"

definition EmptyPool :: FActorPool where
  "EmptyPool = \<lparr>InactiveActors = [], PoolRoot = None\<rparr>"

definition FindOrAdd ::
  "(UClass option \<times> FActorPool) list \<Rightarrow> UClass option
     \<Rightarrow> (UClass option \<times> FActorPool) list \<times> FActorPool" where
  "FindOrAdd m k = (case map_of m k of
       Some v \<Rightarrow> (m, v)
     | None \<Rightarrow> (m @ [(k, EmptyPool)], EmptyPool))"

definition AddUnique :: "'a list \<Rightarrow> 'a \<Rightarrow> 'a list" where
  "AddUnique xs x = (if x \<in> set xs then xs else xs @ [x])"

subsection \<open>Engine calls\<close>

definition IsValid :: "pooler \<Rightarrow> handle option \<Rightarrow> bool" where
  "IsValid s p = (case p of
       None \<Rightarrow> False
     | Some h \<Rightarrow> h < length (Actors s) \<and> bValid (Actors s ! h))"

definition update_actor :: "pooler \<Rightarrow> handle \<Rightarrow> (AActor \<Rightarrow> AActor) \<Rightarrow> pooler" where
  "update_actor s h f = s\<lparr>Actors := (Actors s)[h := f (Actors s ! h)]\<rparr>"

text \<open>
  \<^verbatim>\<open>Actor->Destroy()\<close>: the actor stops being valid, and no other actor does: the engine
  detaches the actors attached to a destroyed actor and leaves them alive. Their
  \<open>AttachParent\<close> is left as it is here, since the pooler never reads it. The source calls
  \<^verbatim>\<open>Destroy\<close> on checked pointers only.
\<close>

definition Destroy :: "pooler \<Rightarrow> handle option \<Rightarrow> pooler" where
  "Destroy s p = (case p of
       None \<Rightarrow> s
     | Some h \<Rightarrow> update_actor s h (\<lambda>a. a\<lparr>bValid := False\<rparr>))"

definition SpawnActor ::
  "host \<Rightarrow> pooler \<Rightarrow> UClass \<Rightarrow> FVector \<Rightarrow> FRotator \<Rightarrow> handle option \<times> pooler" where
  "SpawnActor hst s cls loc rot = (case hst (Actors s) cls of
       None \<Rightarrow> (None, s)
     | Some a \<Rightarrow>
         (Some (length (Actors s)),
          s\<lparr>Actors := Actors s @
             [a\<lparr>bValid := True, AttachParent := None, Location := loc, Rotation := rot\<rparr>]\<rparr>))"

definition SetActorLabel :: "pooler \<Rightarrow> handle \<Rightarrow> string \<Rightarrow> pooler" where
  "SetActorLabel s h l = update_actor s h (\<lambda>a. a\<lparr>ActorLabel := l\<rparr>)"

definition AttachToActor :: "pooler \<Rightarrow> handle \<Rightarrow> handle option \<Rightarrow> pooler" where
  "AttachToActor s h parent = (case parent of
       None \<Rightarrow> s
     | Some r \<Rightarrow> update_actor s h (\<lambda>a. a\<lparr>AttachParent := Some r\<rparr>))"

definition SetActorLocationAndRotation ::
  "pooler \<Rightarrow> handle \<Rightarrow> FVector \<Rightarrow> FRotator \<Rightarrow> pooler" where
  "SetActorLocationAndRotation s h loc rot =
     update_actor s h (\<lambda>a. a\<lparr>Location := loc, Rotation := rot\<rparr>)"

fun GetNameStringByValue :: "EPoolType \<Rightarrow> string" where
  "GetNameStringByValue Nodes = ''Nodes''"
| "GetNameStringByValue NodesSpawner = ''NodesSpawner''"
| "GetNameStringByValue GameObjects = ''GameObjects''"
| "GetNameStringByValue Billboards = ''Billboards''"

section \<open>The pooler\<close>

subsection \<open>SetActorActive\<close>

definition SetActorActive :: "pooler \<Rightarrow> handle option \<Rightarrow> bool \<Rightarrow> pooler" where
  "SetActorActive s Actor bActive =
     (if \<not> IsValid s Actor then s
      else case Actor of
          None \<Rightarrow> s
        | Some h \<Rightarrow> update_actor s h (\<lambda>a. a\<lparr>
            bHidden := \<not> bActive,
            bCollision := bActive,
            bTickEnabled := bActive,
            Components := map (\<lambda>Comp. bActive) (Components a)\<rparr>))"

subsection \<open>GetOrCreatePoolRoot\<close>

text \<open>
  Neither result of \<^verbatim>\<open>SpawnActor\<close> is checked before \<^verbatim>\<open>SetActorLabel\<close> is called through
  it: a refused construction is a null dereference.
\<close>

definition CreatePoolRoot :: "host \<Rightarrow> pooler \<Rightarrow> EPoolType \<Rightarrow> error + (handle option \<times> pooler)" where
  "CreatePoolRoot hst s PoolType =
     (case SpawnActor hst s AActor_StaticClass ZeroVector ZeroRotator of
        (None, s1) \<Rightarrow> Inl NullDereference
      | (Some NewRoot, s1) \<Rightarrow>
          (let EnumName = GetNameStringByValue PoolType;
               s2 = SetActorLabel s1 NewRoot (''PoolRoot_'' @ EnumName);
               s3 = AttachToActor s2 NewRoot (MainPoolRoot s2)
           in Inr (Some NewRoot, s3\<lparr>PoolRoots := Add (PoolRoots s3) PoolType (Some NewRoot)\<rparr>)))"

definition EnsureMainPoolRoot :: "host \<Rightarrow> pooler \<Rightarrow> error + pooler" where
  "EnsureMainPoolRoot hst s =
     (if \<not> IsValid s (MainPoolRoot s) then
        (case SpawnActor hst s AActor_StaticClass ZeroVector ZeroRotator of
           (None, s1) \<Rightarrow> Inl NullDereference
         | (Some r, s1) \<Rightarrow> Inr (SetActorLabel (s1\<lparr>MainPoolRoot := Some r\<rparr>) r ''ObjectPools_Root''))
      else Inr s)"

definition GetOrCreatePoolRoot ::
  "host \<Rightarrow> pooler \<Rightarrow> EPoolType \<Rightarrow> error + (handle option \<times> pooler)" where
  "GetOrCreatePoolRoot hst s PoolType =
     (if \<not> WorldAvailable s then Inr (None, s)
      else case EnsureMainPoolRoot hst s of
          Inl e \<Rightarrow> Inl e
        | Inr s1 \<Rightarrow>
            (case Find (PoolRoots s1) PoolType of
               None \<Rightarrow> CreatePoolRoot hst s1 PoolType
             | Some Root \<Rightarrow>
                 if IsValid s1 Root then Inr (Root, s1)
                 else CreatePoolRoot hst s1 PoolType))"

subsection \<open>SpawnObject\<close>

text \<open>The loop of lines 25 to 33: pop until a valid actor comes up or the array is empty.\<close>

function PopValid :: "pooler \<Rightarrow> handle option list \<Rightarrow> handle option \<times> handle option list" where
  "PopValid s xs =
     (if length xs > 0 then
        (let SpawnedActor = last xs; rest = butlast xs
         in if IsValid s SpawnedActor then (SpawnedActor, rest) else PopValid s rest)
      else (None, xs))"
  by pat_completeness auto
termination
  by (relation "measure (\<lambda>(s, xs). length xs)") auto

declare PopValid.simps [simp del]

text \<open>Lines 21 to 33: the pool of the class, created if absent, and what the loop leaves of it.\<close>

definition TakeFromPool :: "pooler \<Rightarrow> UClass option \<Rightarrow> handle option \<times> pooler" where
  "TakeFromPool s ActorClass =
     (let (m, Pool) = FindOrAdd (ObjectPools s) ActorClass;
          (SpawnedActor, rest) = PopValid s (InactiveActors Pool)
      in (SpawnedActor,
          s\<lparr>ObjectPools := Add m ActorClass (Pool\<lparr>InactiveActors := rest\<rparr>)\<rparr>))"

text \<open>Lines 36 to 51, entered when the pool gave nothing.\<close>

definition SpawnNew ::
  "host \<Rightarrow> pooler \<Rightarrow> UClass \<Rightarrow> FVector \<Rightarrow> FRotator \<Rightarrow> EPoolType
     \<Rightarrow> error + (handle option \<times> pooler)" where
  "SpawnNew hst s cls loc rot PoolType =
     (case SpawnActor hst s cls loc rot of
        (None, s1) \<Rightarrow> Inr (None, s1)
      | (Some a, s1) \<Rightarrow>
          (let s2 = s1\<lparr>ActorToClassMap := Add (ActorToClassMap s1) (Some a) (Some cls)\<rparr>
           in case GetOrCreatePoolRoot hst s2 PoolType of
                Inl e \<Rightarrow> Inl e
              | Inr (Root, s3) \<Rightarrow> Inr (Some a, AttachToActor s3 a Root)))"

text \<open>Lines 53 to 57.\<close>

definition PlaceAndActivate ::
  "handle option \<times> pooler \<Rightarrow> FVector \<Rightarrow> FRotator \<Rightarrow> handle option \<times> pooler" where
  "PlaceAndActivate r loc rot = (case r of
       (None, s) \<Rightarrow> (None, s)
     | (Some a, s) \<Rightarrow>
         (Some a, SetActorActive (SetActorLocationAndRotation s a loc rot) (Some a) True))"

definition SpawnObject ::
  "host \<Rightarrow> pooler \<Rightarrow> UClass option \<Rightarrow> FVector \<Rightarrow> FRotator \<Rightarrow> EPoolType
     \<Rightarrow> error + (handle option \<times> pooler)" where
  "SpawnObject hst s ActorClass loc rot PoolType =
     (case ActorClass of
        None \<Rightarrow> Inr (None, s)
      | Some cls \<Rightarrow>
          if \<not> WorldAvailable s then Inr (None, s)
          else
            (let (SpawnedActor, s1) = TakeFromPool s ActorClass
             in if SpawnedActor = None then
                  (case SpawnNew hst s1 cls loc rot PoolType of
                     Inl e \<Rightarrow> Inl e
                   | Inr r \<Rightarrow> Inr (PlaceAndActivate r loc rot))
                else Inr (PlaceAndActivate (SpawnedActor, s1) loc rot)))"

subsection \<open>ReturnObjectToPool\<close>

definition NotPooledWarning :: "pooler \<Rightarrow> handle option \<Rightarrow> string" where
  "NotPooledWarning s Actor = (case Actor of
       None \<Rightarrow> []
     | Some h \<Rightarrow> ''Trying to return an actor that is not pooled: '' @ ActorName (Actors s ! h))"

definition ReturnObjectToPool :: "pooler \<Rightarrow> handle option \<Rightarrow> pooler" where
  "ReturnObjectToPool s Actor =
     (if \<not> IsValid s Actor then s
      else case Find (ActorToClassMap s) Actor of
          Some (Some cls) \<Rightarrow>
            (let s1 = SetActorActive s Actor False;
                 (m, Pool) = FindOrAdd (ObjectPools s1) (Some cls)
             in s1\<lparr>ObjectPools :=
                  Add m (Some cls) (Pool\<lparr>InactiveActors := AddUnique (InactiveActors Pool) Actor\<rparr>)\<rparr>)
        | _ \<Rightarrow> Destroy (s\<lparr>Log := Log s @ [NotPooledWarning s Actor]\<rparr>) Actor)"

subsection \<open>InitializePool\<close>

text \<open>
  \<^verbatim>\<open>Count\<close> and the counter are \<^verbatim>\<open>int32\<close>; the counter stays below \<^verbatim>\<open>Count\<close>, so it
  never wraps.
\<close>

function InitializePool_loop ::
  "host \<Rightarrow> pooler \<Rightarrow> UClass option \<Rightarrow> EPoolType \<Rightarrow> int \<Rightarrow> int \<Rightarrow> error + pooler" where
  "InitializePool_loop hst s ActorClass PoolType i Count =
     (if i < Count then
        (case SpawnObject hst s ActorClass ZeroVector ZeroRotator PoolType of
           Inl e \<Rightarrow> Inl e
         | Inr (NewActor, s1) \<Rightarrow>
             InitializePool_loop hst
               (if NewActor \<noteq> None then ReturnObjectToPool s1 NewActor else s1)
               ActorClass PoolType (i + 1) Count)
      else Inr s)"
  by pat_completeness auto
termination
  by (relation "measure (\<lambda>(hst, s, c, p, i, Count). nat (Count - i))") auto

declare InitializePool_loop.simps [simp del]

definition InitializePool ::
  "host \<Rightarrow> pooler \<Rightarrow> UClass option \<Rightarrow> int \<Rightarrow> EPoolType \<Rightarrow> error + pooler" where
  "InitializePool hst s ActorClass Count PoolType =
     (if ActorClass = None then Inr s
      else InitializePool_loop hst s ActorClass PoolType 0 Count)"

subsection \<open>Deinitialize\<close>

definition DestroyIfValid :: "handle option \<Rightarrow> pooler \<Rightarrow> pooler" where
  "DestroyIfValid Actor s = (if IsValid s Actor then Destroy s Actor else s)"

definition DestroyPooled :: "pooler \<Rightarrow> pooler" where
  "DestroyPooled s =
     fold (\<lambda>Pair s'. fold DestroyIfValid (InactiveActors (snd Pair)) s') (ObjectPools s) s"

definition Deinitialize :: "pooler \<Rightarrow> pooler" where
  "Deinitialize s =
     (let s1 = DestroyPooled s;
          s2 = s1\<lparr>ObjectPools := [], ActorToClassMap := [], PoolRoots := []\<rparr>
      in if IsValid s2 (MainPoolRoot s2)
         then (Destroy s2 (MainPoolRoot s2))\<lparr>MainPoolRoot := None\<rparr>
         else s2)"

subsection \<open>A subsystem that has just been created\<close>

definition NewPooler :: "bool \<Rightarrow> AActor list \<Rightarrow> string list \<Rightarrow> pooler" where
  "NewPooler world actors lg =
     \<lparr>ObjectPools = [], ActorToClassMap = [], PoolRoots = [], MainPoolRoot = None,
      WorldAvailable = world, Actors = actors, Log = lg\<rparr>"

section \<open>Notions used by the properties\<close>

text \<open>The free list of a class; a class with no pool yet has the empty one.\<close>

definition pool_of :: "pooler \<Rightarrow> UClass option \<Rightarrow> handle option list" where
  "pool_of s c = (case Find (ObjectPools s) c of
       None \<Rightarrow> []
     | Some P \<Rightarrow> InactiveActors P)"

definition FullyActive :: "pooler \<Rightarrow> handle \<Rightarrow> bool" where
  "FullyActive s h =
     (\<not> bHidden (Actors s ! h) \<and> bCollision (Actors s ! h) \<and> bTickEnabled (Actors s ! h)
      \<and> list_all (\<lambda>active. active) (Components (Actors s ! h)))"

definition FullyInactive :: "pooler \<Rightarrow> handle \<Rightarrow> bool" where
  "FullyInactive s h =
     (bHidden (Actors s ! h) \<and> \<not> bCollision (Actors s ! h) \<and> \<not> bTickEnabled (Actors s ! h)
      \<and> list_all (\<lambda>active. \<not> active) (Components (Actors s ! h)))"

text \<open>
  The states the subsystem can be in: it starts empty, its four operations are called in any
  order with any arguments, and between two calls the engine and the game may create,
  change and destroy actors (handles are never reused, so the actor table never shrinks).
  \<^verbatim>\<open>InitializePool\<close> is a sequence of \<^verbatim>\<open>SpawnObject\<close> and \<^verbatim>\<open>ReturnObjectToPool\<close> calls.
\<close>

inductive reachable :: "host \<Rightarrow> pooler \<Rightarrow> bool" for hst :: host where
  start: "reachable hst (NewPooler world actors lg)"
| acquire: "reachable hst s \<Longrightarrow> SpawnObject hst s c loc rot pt = Inr (a, s')
     \<Longrightarrow> reachable hst s'"
| release: "reachable hst s \<Longrightarrow> reachable hst (ReturnObjectToPool s a)"
| teardown: "reachable hst s \<Longrightarrow> reachable hst (Deinitialize s)"
| world: "reachable hst s \<Longrightarrow> length (Actors s) \<le> length actors
     \<Longrightarrow> reachable hst (s\<lparr>Actors := actors\<rparr>)"

text \<open>
  From \<open>s\<close> to \<open>s'\<close> the actor table only grew, and no actor of \<open>s\<close> changed its validity.
\<close>

definition grows :: "pooler \<Rightarrow> pooler \<Rightarrow> bool" where
  "grows s s' =
     (length (Actors s) \<le> length (Actors s')
      \<and> (\<forall>i < length (Actors s). bValid (Actors s' ! i) = bValid (Actors s ! i)))"

text \<open>
  What holds in all of them: one pool for each class; no actor twice in a pool; a pooled
  actor is recorded under the class of its pool; only handles given out are recorded; the
  main root is a handle given out and is not recorded.
\<close>

definition pooler_inv :: "pooler \<Rightarrow> bool" where
  "pooler_inv s =
     (distinct (map fst (ObjectPools s))
      \<and> (\<forall>c. distinct (pool_of s c)
            \<and> (\<forall>a \<in> set (pool_of s c). c \<noteq> None \<and> Find (ActorToClassMap s) a = Some c))
      \<and> (\<forall>a c. Find (ActorToClassMap s) a = Some c \<longrightarrow>
            (\<exists>h. a = Some h \<and> h < length (Actors s)))
      \<and> (\<forall>h. MainPoolRoot s = Some h \<longrightarrow>
            h < length (Actors s) \<and> Find (ActorToClassMap s) (Some h) = None))"

text \<open>Every handle that sits in some pool, in the order in which \<^verbatim>\<open>Deinitialize\<close> visits them.\<close>

definition AllPooled :: "pooler \<Rightarrow> handle option list" where
  "AllPooled s = concat (map (\<lambda>Pair. InactiveActors (snd Pair)) (ObjectPools s))"

subsection \<open>A concrete host and concrete runs\<close>

definition PlainActor :: AActor where
  "PlainActor = \<lparr>bValid = True, bHidden = False, bCollision = True, bTickEnabled = True,
     Components = [True, False], AttachParent = None, Location = (0, 0, 0),
     Rotation = (0, 0, 0), ActorLabel = [], ActorName = ''Actor''\<rparr>"

definition WillingHost :: host where
  "WillingHost actors cls = Some PlainActor"

definition RefusingHost :: host where
  "RefusingHost actors cls = None"

text \<open>
  A subsystem with a world and no actors yet, and the state after one
  \<^verbatim>\<open>SpawnObject\<close> of class 7 there.
\<close>

definition FreshPooler :: pooler where
  "FreshPooler = NewPooler True [] []"

definition DemoActive :: pooler where
  "DemoActive =
     (case SpawnObject WillingHost FreshPooler (Some 7) (1, 2, 3) ZeroRotator GameObjects of
        Inr (p, s) \<Rightarrow> s
      | Inl e \<Rightarrow> FreshPooler)"

text \<open>
  That actor returned to its pool; then destroyed behind the pooler's back; then the state
  after the next \<^verbatim>\<open>SpawnObject\<close> of class 7.
\<close>

definition DemoPooled :: pooler where
  "DemoPooled = ReturnObjectToPool DemoActive (Some 0)"



text \<open>The state after a second \<^verbatim>\<open>SpawnObject\<close>, of class 9, while the first actor is out.\<close>

definition DemoSecond :: pooler where
  "DemoSecond =
     (case SpawnObject WillingHost DemoActive (Some 9) ZeroVector ZeroRotator Billboards of
        Inr (p, s) \<Rightarrow> s
      | Inl e \<Rightarrow> DemoActive)"

text \<open>
  A second actor of class 7 spawned while the first is out; both returned, the first one
  first; and the state after the next \<^verbatim>\<open>SpawnObject\<close> of class 7.
\<close>

definition DemoTwoOut :: pooler where
  "DemoTwoOut =
     (case SpawnObject WillingHost DemoActive (Some 7) ZeroVector ZeroRotator GameObjects of
        Inr (p, s) \<Rightarrow> s
      | Inl e \<Rightarrow> DemoActive)"

definition DemoBothPooled :: pooler where
  "DemoBothPooled = ReturnObjectToPool (ReturnObjectToPool DemoTwoOut (Some 0)) (Some 3)"


text \<open>
  The same two pooled actors with the one on top destroyed behind the pooler's back, and
  the state after the next \<^verbatim>\<open>SpawnObject\<close> of class 7.
\<close>

definition DemoTopStale :: pooler where
  "DemoTopStale = Destroy DemoBothPooled (Some 3)"

definition DemoTopSkipped :: pooler where
  "DemoTopSkipped =
     (case SpawnObject WillingHost DemoTopStale (Some 7) ZeroVector ZeroRotator GameObjects of
        Inr (p, s) \<Rightarrow> s
      | Inl e \<Rightarrow> DemoTopStale)"

text \<open>An actor that the game spawned itself, beside the pooled one.\<close>

definition DemoForeign :: pooler where
  "DemoForeign = DemoPooled\<lparr>Actors := Actors DemoPooled @ [PlainActor]\<rparr>"

text \<open>The state after \<^verbatim>\<open>InitializePool\<close> of class 7 with a count of 5 on the new subsystem.\<close>

definition DemoPrewarmed :: pooler where
  "DemoPrewarmed =
     (case InitializePool WillingHost FreshPooler (Some 7) 5 GameObjects of
        Inr s \<Rightarrow> s
      | Inl e \<Rightarrow> FreshPooler)"

section \<open>Facts about the operations\<close>

subsection \<open>Engine calls leave the subsystem's members alone\<close>

lemma update_actor_fields [simp]:
  "ObjectPools (update_actor s h f) = ObjectPools s"
  "ActorToClassMap (update_actor s h f) = ActorToClassMap s"
  "PoolRoots (update_actor s h f) = PoolRoots s"
  "MainPoolRoot (update_actor s h f) = MainPoolRoot s"
  "WorldAvailable (update_actor s h f) = WorldAvailable s"
  "Log (update_actor s h f) = Log s"
  "Actors (update_actor s h f) = (Actors s)[h := f (Actors s ! h)]"
  by (simp_all add: update_actor_def)

lemma IsValid_Some: "IsValid s (Some h) = (h < length (Actors s) \<and> bValid (Actors s ! h))"
  by (simp add: IsValid_def)

lemma IsValid_None [simp]: "\<not> IsValid s None"
  by (simp add: IsValid_def)

lemma IsValid_cong: "Actors s = Actors s' \<Longrightarrow> IsValid s p = IsValid s' p"
  by (cases p) (simp_all add: IsValid_def)

lemma bValid_update_nth:
  assumes "\<And>a. bValid (f a) = bValid a"
  shows "bValid (xs[h := f (xs ! h)] ! i) = bValid (xs ! i)"
proof (cases "h < length xs")
  case True
  then show ?thesis using assms by (cases "i = h") simp_all
next
  case False
  then show ?thesis by (simp add: not_less list_update_beyond)
qed

lemma IsValid_update_actor:
  assumes "\<And>a. bValid (f a) = bValid a"
  shows "IsValid (update_actor s h f) p = IsValid s p"
  using bValid_update_nth [of f, OF assms] by (cases p) (simp_all add: IsValid_Some)

lemma SetActorLabel_frame [simp]:
  "ObjectPools (SetActorLabel s h l) = ObjectPools s"
  "ActorToClassMap (SetActorLabel s h l) = ActorToClassMap s"
  "PoolRoots (SetActorLabel s h l) = PoolRoots s"
  "MainPoolRoot (SetActorLabel s h l) = MainPoolRoot s"
  "WorldAvailable (SetActorLabel s h l) = WorldAvailable s"
  "Log (SetActorLabel s h l) = Log s"
  "length (Actors (SetActorLabel s h l)) = length (Actors s)"
  "IsValid (SetActorLabel s h l) p = IsValid s p"
  by (simp_all add: SetActorLabel_def IsValid_update_actor)

lemma AttachToActor_frame [simp]:
  "ObjectPools (AttachToActor s h r) = ObjectPools s"
  "ActorToClassMap (AttachToActor s h r) = ActorToClassMap s"
  "PoolRoots (AttachToActor s h r) = PoolRoots s"
  "MainPoolRoot (AttachToActor s h r) = MainPoolRoot s"
  "WorldAvailable (AttachToActor s h r) = WorldAvailable s"
  "Log (AttachToActor s h r) = Log s"
  "length (Actors (AttachToActor s h r)) = length (Actors s)"
  "IsValid (AttachToActor s h r) p = IsValid s p"
  by (simp_all add: AttachToActor_def IsValid_update_actor split: option.split)

lemma SetActorLocationAndRotation_frame [simp]:
  "ObjectPools (SetActorLocationAndRotation s h l r) = ObjectPools s"
  "ActorToClassMap (SetActorLocationAndRotation s h l r) = ActorToClassMap s"
  "PoolRoots (SetActorLocationAndRotation s h l r) = PoolRoots s"
  "MainPoolRoot (SetActorLocationAndRotation s h l r) = MainPoolRoot s"
  "WorldAvailable (SetActorLocationAndRotation s h l r) = WorldAvailable s"
  "Log (SetActorLocationAndRotation s h l r) = Log s"
  "length (Actors (SetActorLocationAndRotation s h l r)) = length (Actors s)"
  "IsValid (SetActorLocationAndRotation s h l r) p = IsValid s p"
  by (simp_all add: SetActorLocationAndRotation_def IsValid_update_actor)

lemma SetActorActive_frame [simp]:
  "ObjectPools (SetActorActive s p b) = ObjectPools s"
  "ActorToClassMap (SetActorActive s p b) = ActorToClassMap s"
  "PoolRoots (SetActorActive s p b) = PoolRoots s"
  "MainPoolRoot (SetActorActive s p b) = MainPoolRoot s"
  "WorldAvailable (SetActorActive s p b) = WorldAvailable s"
  "Log (SetActorActive s p b) = Log s"
  "length (Actors (SetActorActive s p b)) = length (Actors s)"
  "IsValid (SetActorActive s p b) q = IsValid s q"
  by (simp_all add: SetActorActive_def IsValid_update_actor split: option.split)

lemma Destroy_frame [simp]:
  "ObjectPools (Destroy s p) = ObjectPools s"
  "ActorToClassMap (Destroy s p) = ActorToClassMap s"
  "PoolRoots (Destroy s p) = PoolRoots s"
  "MainPoolRoot (Destroy s p) = MainPoolRoot s"
  "WorldAvailable (Destroy s p) = WorldAvailable s"
  "Log (Destroy s p) = Log s"
  "length (Actors (Destroy s p)) = length (Actors s)"
  by (simp_all add: Destroy_def split: option.split)

lemma IsValid_Destroy: "IsValid (Destroy s p) q = (IsValid s q \<and> q \<noteq> p)"
proof (cases p)
  case None
  then show ?thesis by (cases q) (simp_all add: Destroy_def)
next
  case (Some h)
  show ?thesis
  proof (cases q)
    case None
    then show ?thesis by simp
  next
    case (Some i)
    show ?thesis
      unfolding \<open>p = Some h\<close> Some by (cases "i = h") (simp_all add: IsValid_Some Destroy_def)
  qed
qed

subsection \<open>SetActorActive switches everything\<close>

lemma SetActorActive_True:
  "IsValid s (Some h) \<Longrightarrow> FullyActive (SetActorActive s (Some h) True) h"
  by (simp add: SetActorActive_def FullyActive_def IsValid_Some list_all_iff)

lemma SetActorActive_False:
  "IsValid s (Some h) \<Longrightarrow> FullyInactive (SetActorActive s (Some h) False) h"
  by (simp add: SetActorActive_def FullyInactive_def IsValid_Some list_all_iff)

subsection \<open>Growth of the actor table\<close>

lemma grows_refl [simp]: "grows s s"
  by (simp add: grows_def)

lemma grows_trans: "grows s t \<Longrightarrow> grows t u \<Longrightarrow> grows s u"
  by (auto simp: grows_def)

lemma grows_length: "grows s s' \<Longrightarrow> length (Actors s) \<le> length (Actors s')"
  by (simp add: grows_def)

lemma grows_IsValid: "grows s s' \<Longrightarrow> IsValid s p \<Longrightarrow> IsValid s' p"
  by (cases p) (auto simp: grows_def IsValid_Some)

lemma grows_IsValid_old:
  "grows s s' \<Longrightarrow> h < length (Actors s) \<Longrightarrow> IsValid s' (Some h) = IsValid s (Some h)"
  by (auto simp: grows_def IsValid_Some)

lemma grows_same_validity:
  assumes "length (Actors s') = length (Actors s)" and "\<And>p. IsValid s' p = IsValid s p"
  shows "grows s s'"
  using assms(1) assms(2) [of "Some i" for i] by (auto simp: grows_def IsValid_Some)

lemma grows_engine [simp]:
  "grows s (SetActorLabel s h l)"
  "grows s (AttachToActor s h r)"
  "grows s (SetActorLocationAndRotation s h loc rot)"
  "grows s (SetActorActive s p b)"
  by (rule grows_same_validity; simp)+

lemma grows_members:
  "Actors s' = Actors s \<Longrightarrow> grows s s'"
  by (simp add: grows_def)

subsection \<open>SpawnActor\<close>

lemma SpawnActor_refused:
  "hst (Actors s) cls = None \<Longrightarrow> SpawnActor hst s cls loc rot = (None, s)"
  by (simp add: SpawnActor_def)

lemma SpawnActor_result:
  assumes "SpawnActor hst s cls loc rot = (p, s')"
  shows "ObjectPools s' = ObjectPools s" "ActorToClassMap s' = ActorToClassMap s"
    "PoolRoots s' = PoolRoots s" "MainPoolRoot s' = MainPoolRoot s"
    "WorldAvailable s' = WorldAvailable s" "Log s' = Log s"
    "grows s s'"
    "p = None \<Longrightarrow> s' = s \<and> hst (Actors s) cls = None"
    "p = Some h \<Longrightarrow> h = length (Actors s) \<and> length (Actors s') = Suc h \<and> IsValid s' (Some h)
        \<and> hst (Actors s) cls \<noteq> None"
  using assms
  by (auto simp: SpawnActor_def grows_def IsValid_Some nth_append split: option.splits)

subsection \<open>GetOrCreatePoolRoot\<close>

lemma EnsureMainPoolRoot_result:
  assumes "EnsureMainPoolRoot hst s = Inr s'"
  shows "ObjectPools s' = ObjectPools s" "ActorToClassMap s' = ActorToClassMap s"
    "PoolRoots s' = PoolRoots s"
    "WorldAvailable s' = WorldAvailable s" "Log s' = Log s"
    "grows s s'"
    "MainPoolRoot s' = MainPoolRoot s
       \<or> (\<exists>h. MainPoolRoot s' = Some h \<and> length (Actors s) \<le> h \<and> h < length (Actors s'))"
proof -
  show "ObjectPools s' = ObjectPools s" "ActorToClassMap s' = ActorToClassMap s"
    "PoolRoots s' = PoolRoots s" "WorldAvailable s' = WorldAvailable s" "Log s' = Log s"
    using assms
    by (auto simp: EnsureMainPoolRoot_def dest: SpawnActor_result(1-6)
        split: if_splits prod.splits option.splits)
  show "grows s s'"
  proof (cases "IsValid s (MainPoolRoot s)")
    case True
    with assms show ?thesis by (simp add: EnsureMainPoolRoot_def)
  next
    case False
    with assms obtain r s1 where sp: "SpawnActor hst s AActor_StaticClass ZeroVector ZeroRotator = (Some r, s1)"
      and s': "s' = SetActorLabel (s1\<lparr>MainPoolRoot := Some r\<rparr>) r ''ObjectPools_Root''"
      by (auto simp: EnsureMainPoolRoot_def split: prod.splits option.splits)
    have "grows s s1" using sp by (rule SpawnActor_result(7))
    moreover have "grows s1 (s1\<lparr>MainPoolRoot := Some r\<rparr>)" by (simp add: grows_def)
    moreover have "grows (s1\<lparr>MainPoolRoot := Some r\<rparr>) s'" unfolding s' by simp
    ultimately show ?thesis by (blast intro: grows_trans)
  qed
  show "MainPoolRoot s' = MainPoolRoot s
       \<or> (\<exists>h. MainPoolRoot s' = Some h \<and> length (Actors s) \<le> h \<and> h < length (Actors s'))"
  proof (cases "IsValid s (MainPoolRoot s)")
    case True
    with assms show ?thesis by (simp add: EnsureMainPoolRoot_def)
  next
    case False
    with assms obtain r s1 where sp: "SpawnActor hst s AActor_StaticClass ZeroVector ZeroRotator = (Some r, s1)"
      and s': "s' = SetActorLabel (s1\<lparr>MainPoolRoot := Some r\<rparr>) r ''ObjectPools_Root''"
      by (auto simp: EnsureMainPoolRoot_def split: prod.splits option.splits)
    from SpawnActor_result(9) [OF sp refl] show ?thesis
      unfolding s' by simp
  qed
qed

lemma CreatePoolRoot_result:
  assumes "CreatePoolRoot hst s pt = Inr (Root, s')"
  shows "ObjectPools s' = ObjectPools s" "ActorToClassMap s' = ActorToClassMap s"
    "MainPoolRoot s' = MainPoolRoot s"
    "WorldAvailable s' = WorldAvailable s" "Log s' = Log s"
    "grows s s'"
proof -
  from assms obtain r s1 where sp: "SpawnActor hst s AActor_StaticClass ZeroVector ZeroRotator = (Some r, s1)"
    and s': "s' = (AttachToActor (SetActorLabel s1 r (''PoolRoot_'' @ GetNameStringByValue pt)) r
                     (MainPoolRoot (SetActorLabel s1 r (''PoolRoot_'' @ GetNameStringByValue pt))))
                  \<lparr>PoolRoots := Add (PoolRoots s1) pt (Some r)\<rparr>"
    by (auto simp: CreatePoolRoot_def Let_def split: prod.splits option.splits)
  show "ObjectPools s' = ObjectPools s" "ActorToClassMap s' = ActorToClassMap s"
    "MainPoolRoot s' = MainPoolRoot s" "WorldAvailable s' = WorldAvailable s" "Log s' = Log s"
    unfolding s' using SpawnActor_result(1-6) [OF sp] by simp_all
  let ?t = "AttachToActor (SetActorLabel s1 r (''PoolRoot_'' @ GetNameStringByValue pt)) r
                     (MainPoolRoot (SetActorLabel s1 r (''PoolRoot_'' @ GetNameStringByValue pt)))"
  have "grows s s1" using sp by (rule SpawnActor_result(7))
  moreover have "grows s1 ?t" by (blast intro: grows_trans grows_engine)
  moreover have "grows ?t s'" unfolding s' by (simp add: grows_def)
  ultimately show "grows s s'" by (blast intro: grows_trans)
qed

lemma GetOrCreatePoolRoot_result:
  assumes "GetOrCreatePoolRoot hst s pt = Inr (Root, s')"
  shows "ObjectPools s' = ObjectPools s" "ActorToClassMap s' = ActorToClassMap s"
    "WorldAvailable s' = WorldAvailable s" "Log s' = Log s"
    "grows s s'"
    "MainPoolRoot s' = MainPoolRoot s
       \<or> (\<exists>h. MainPoolRoot s' = Some h \<and> length (Actors s) \<le> h \<and> h < length (Actors s'))"
proof -
  consider (noworld) "s' = s"
    | (cached) "EnsureMainPoolRoot hst s = Inr s'"
    | (fresh) s1 where "EnsureMainPoolRoot hst s = Inr s1" "CreatePoolRoot hst s1 pt = Inr (Root, s')"
    using assms
    by (auto simp: GetOrCreatePoolRoot_def split: if_splits sum.splits option.splits)
  note cases = this
  show "ObjectPools s' = ObjectPools s"
    by (rule cases) (simp_all add: EnsureMainPoolRoot_result CreatePoolRoot_result)
  show "ActorToClassMap s' = ActorToClassMap s"
    by (rule cases) (simp_all add: EnsureMainPoolRoot_result CreatePoolRoot_result)
  show "WorldAvailable s' = WorldAvailable s"
    by (rule cases) (simp_all add: EnsureMainPoolRoot_result CreatePoolRoot_result)
  show "Log s' = Log s"
    by (rule cases) (simp_all add: EnsureMainPoolRoot_result CreatePoolRoot_result)
  show "grows s s'"
    by (rule cases) (auto intro: grows_trans EnsureMainPoolRoot_result(6) CreatePoolRoot_result(6))
  show "MainPoolRoot s' = MainPoolRoot s
       \<or> (\<exists>h. MainPoolRoot s' = Some h \<and> length (Actors s) \<le> h \<and> h < length (Actors s'))"
  proof (rule cases)
    assume "s' = s" then show ?thesis by simp
  next
    assume "EnsureMainPoolRoot hst s = Inr s'"
    then show ?thesis by (rule EnsureMainPoolRoot_result(7))
  next
    fix s1 assume e: "EnsureMainPoolRoot hst s = Inr s1" and c: "CreatePoolRoot hst s1 pt = Inr (Root, s')"
    from CreatePoolRoot_result(6) [OF c] have "length (Actors s1) \<le> length (Actors s')"
      by (rule grows_length)
    with EnsureMainPoolRoot_result(7) [OF e] CreatePoolRoot_result(3) [OF c]
    show ?thesis by auto
  qed
qed

subsection \<open>The pop loop\<close>


lemma PopValid_valid: "PopValid s xs = (p, rest) \<Longrightarrow> p \<noteq> None \<Longrightarrow> IsValid s p"
proof (induction xs arbitrary: p rest rule: rev_induct)
  case Nil
  then show ?case by (simp add: PopValid.simps)
next
  case (snoc x xs)
  from snoc.prems show ?case
    by (subst (asm) PopValid.simps) (auto split: if_splits dest: snoc.IH)
qed

lemma PopValid_prefix: "PopValid s xs = (p, rest) \<Longrightarrow> \<exists>dropped. xs = rest @ dropped"
proof (induction xs arbitrary: p rest rule: rev_induct)
  case Nil
  then show ?case by (simp add: PopValid.simps)
next
  case (snoc x xs)
  from snoc.prems show ?case
    by (subst (asm) PopValid.simps) (auto split: if_splits dest: snoc.IH)
qed

lemma PopValid_exhausted: "PopValid s xs = (None, rest) \<Longrightarrow> rest = [] \<and> (\<forall>a\<in>set xs. \<not> IsValid s a)"
proof (induction xs arbitrary: rest rule: rev_induct)
  case Nil
  then show ?case by (simp add: PopValid.simps)
next
  case (snoc x xs)
  from snoc.prems show ?case
    by (subst (asm) PopValid.simps) (auto split: if_splits dest: snoc.IH)
qed

subsection \<open>Containers\<close>

lemma Find_Add: "Find (Add m k v) k' = (if k' = k then Some v else Find m k')"
  by (simp add: Find_def Add_def update_conv')

lemma distinct_keys_Add: "distinct (map fst m) \<Longrightarrow> distinct (map fst (Add m k v))"
  by (simp add: Add_def distinct_update)

lemma FindOrAdd_cases:
  assumes "FindOrAdd m k = (m', P)"
  shows "(map_of m k = None \<and> k \<notin> fst ` set m \<and> m' = m @ [(k, EmptyPool)] \<and> P = EmptyPool)
     \<or> (map_of m k = Some P \<and> m' = m)"
proof (cases "map_of m k")
  case None
  with assms show ?thesis by (simp add: FindOrAdd_def map_of_eq_None_iff)
next
  case (Some Q)
  with assms show ?thesis by (simp add: FindOrAdd_def)
qed

lemma FindOrAdd_result:
  assumes "FindOrAdd m k = (m', P)"
  shows "Find m' k = Some P"
    "k' \<noteq> k \<Longrightarrow> Find m' k' = Find m k'"
    "P = (case Find m k of None \<Rightarrow> EmptyPool | Some Q \<Rightarrow> Q)"
    "distinct (map fst m) \<Longrightarrow> distinct (map fst m')"
proof -
  note c = FindOrAdd_cases [OF assms]
  show "Find m' k = Some P"
    using c by (auto simp: Find_def map_add_def)
  show "k' \<noteq> k \<Longrightarrow> Find m' k' = Find m k'"
    using c by (auto simp: Find_def map_add_def split: option.split)
  show "P = (case Find m k of None \<Rightarrow> EmptyPool | Some Q \<Rightarrow> Q)"
    using c by (auto simp: Find_def)
  show "distinct (map fst m) \<Longrightarrow> distinct (map fst m')"
    using c by auto
qed

lemma pool_of_FindOrAdd:
  "FindOrAdd (ObjectPools s) c = (m, P) \<Longrightarrow> InactiveActors P = pool_of s c"
  by (auto simp: FindOrAdd_def pool_of_def Find_def EmptyPool_def split: option.splits)

lemma AddUnique_set [simp]: "set (AddUnique xs x) = insert x (set xs)"
  by (auto simp: AddUnique_def)

lemma AddUnique_distinct: "distinct xs \<Longrightarrow> distinct (AddUnique xs x)"
  by (simp add: AddUnique_def)

lemma AddUnique_idem: "AddUnique (AddUnique xs x) x = AddUnique xs x"
  by (simp add: AddUnique_def)

subsection \<open>TakeFromPool\<close>

lemma TakeFromPool_frame:
  assumes "TakeFromPool s c = (q, s1)"
  shows "ActorToClassMap s1 = ActorToClassMap s" "PoolRoots s1 = PoolRoots s"
    "MainPoolRoot s1 = MainPoolRoot s" "WorldAvailable s1 = WorldAvailable s"
    "Log s1 = Log s" "Actors s1 = Actors s"
  using assms by (auto simp: TakeFromPool_def Let_def split: prod.splits)

lemma TakeFromPool_pools:
  assumes "TakeFromPool s c = (q, s1)"
  shows "(q, pool_of s1 c) = PopValid s (pool_of s c)"
    "c' \<noteq> c \<Longrightarrow> Find (ObjectPools s1) c' = Find (ObjectPools s) c'"
    "Find (ObjectPools s1) c \<noteq> None"
    "distinct (map fst (ObjectPools s)) \<Longrightarrow> distinct (map fst (ObjectPools s1))"
proof -
  obtain m P where fa: "FindOrAdd (ObjectPools s) c = (m, P)" by (cases "FindOrAdd (ObjectPools s) c")
  obtain q' rest where pv: "PopValid s (InactiveActors P) = (q', rest)"
    by (cases "PopValid s (InactiveActors P)")
  from assms fa pv have q: "q' = q"
    and s1: "s1 = s\<lparr>ObjectPools := Add m c (P\<lparr>InactiveActors := rest\<rparr>)\<rparr>"
    by (simp_all add: TakeFromPool_def)
  show "(q, pool_of s1 c) = PopValid s (pool_of s c)"
    using pv pool_of_FindOrAdd [OF fa] by (simp add: s1 q pool_of_def Find_Add)
  show "c' \<noteq> c \<Longrightarrow> Find (ObjectPools s1) c' = Find (ObjectPools s) c'"
    using FindOrAdd_result(2) [OF fa] by (simp add: s1 Find_Add)
  show "Find (ObjectPools s1) c \<noteq> None"
    by (simp add: s1 Find_Add)
  show "distinct (map fst (ObjectPools s)) \<Longrightarrow> distinct (map fst (ObjectPools s1))"
    using FindOrAdd_result(4) [OF fa] by (simp add: s1 distinct_keys_Add)
qed

lemma pool_of_other: "Find (ObjectPools s') c = Find (ObjectPools s) c \<Longrightarrow> pool_of s' c = pool_of s c"
  by (simp add: pool_of_def)

subsection \<open>SpawnObject\<close>

lemma SpawnObject_null_class [simp]: "SpawnObject hst s None loc rot pt = Inr (None, s)"
  by (simp add: SpawnObject_def)

lemma SpawnObject_no_world [simp]:
  "\<not> WorldAvailable s \<Longrightarrow> SpawnObject hst s c loc rot pt = Inr (None, s)"
  by (simp add: SpawnObject_def split: option.split)

text \<open>The three ways a call can return: an actor of the pool, nothing, a new actor.\<close>

lemma SpawnObject_cases:
  assumes "SpawnObject hst s (Some cls) loc rot pt = Inr (p, s')"
    and "WorldAvailable s"
    and "TakeFromPool s (Some cls) = (q, s1)"
  obtains (reused) h where "q = Some h" "p = Some h"
      "s' = SetActorActive (SetActorLocationAndRotation s1 h loc rot) (Some h) True"
    | (refused) "q = None" "p = None" "s' = s1" "hst (Actors s) cls = None"
    | (constructed) a s2 Root s3 where "q = None" "p = Some a"
      "SpawnActor hst s1 cls loc rot = (Some a, s2)"
      "GetOrCreatePoolRoot hst
         (s2\<lparr>ActorToClassMap := Add (ActorToClassMap s2) (Some a) (Some cls)\<rparr>) pt = Inr (Root, s3)"
      "s' = SetActorActive (SetActorLocationAndRotation (AttachToActor s3 a Root) a loc rot)
              (Some a) True"
proof (cases q)
  case (Some h)
  with assms have "p = Some h"
    "s' = SetActorActive (SetActorLocationAndRotation s1 h loc rot) (Some h) True"
    by (auto simp: SpawnObject_def PlaceAndActivate_def)
  with Some show thesis by (rule reused)
next
  case None
  obtain r s2 where sp: "SpawnActor hst s1 cls loc rot = (r, s2)"
    by (cases "SpawnActor hst s1 cls loc rot")
  show thesis
  proof (cases r)
    case None
    with sp assms \<open>q = None\<close> have "p = None" "s' = s2"
      by (auto simp: SpawnObject_def SpawnNew_def PlaceAndActivate_def)
    moreover from SpawnActor_result(8) [OF sp None] TakeFromPool_frame(6) [OF assms(3)]
    have "s2 = s1" "hst (Actors s) cls = None" by simp_all
    ultimately show thesis using \<open>q = None\<close> by (simp add: refused)
  next
    case (Some a)
    let ?s2 = "s2\<lparr>ActorToClassMap := Add (ActorToClassMap s2) (Some a) (Some cls)\<rparr>"
    from sp assms \<open>q = None\<close> Some
    obtain Root s3 where g: "GetOrCreatePoolRoot hst ?s2 pt = Inr (Root, s3)"
      and "p = Some a"
      and "s' = SetActorActive (SetActorLocationAndRotation (AttachToActor s3 a Root) a loc rot)
              (Some a) True"
      by (auto simp: SpawnObject_def SpawnNew_def PlaceAndActivate_def Let_def
          split: sum.splits prod.splits)
    with sp Some \<open>q = None\<close> show thesis by (simp add: constructed)
  qed
qed

lemma TakeFromPool_valid:
  assumes "TakeFromPool s c = (Some h, s1)"
  shows "IsValid s1 (Some h)"
proof -
  from TakeFromPool_pools(1) [OF assms] have "PopValid s (pool_of s c) = (Some h, pool_of s1 c)"
    by simp
  then have "IsValid s (Some h)" by (rule PopValid_valid) simp
  then show ?thesis using TakeFromPool_frame(6) [OF assms] by (simp add: IsValid_Some)
qed

lemma TakeFromPool_grows: "TakeFromPool s c = (q, s1) \<Longrightarrow> grows s s1"
  by (rule grows_members) (rule TakeFromPool_frame(6))

lemma PlaceAndActivate_facts:
  assumes "IsValid t (Some h)"
    and "s' = SetActorActive (SetActorLocationAndRotation t h loc rot) (Some h) True"
  shows "ObjectPools s' = ObjectPools t" "ActorToClassMap s' = ActorToClassMap t"
    "PoolRoots s' = PoolRoots t" "MainPoolRoot s' = MainPoolRoot t"
    "WorldAvailable s' = WorldAvailable t" "Log s' = Log t"
    "length (Actors s') = length (Actors t)" "grows t s'"
    "IsValid s' (Some h)" "FullyActive s' h"
proof -
  show "ObjectPools s' = ObjectPools t" "ActorToClassMap s' = ActorToClassMap t"
    "PoolRoots s' = PoolRoots t" "MainPoolRoot s' = MainPoolRoot t"
    "WorldAvailable s' = WorldAvailable t" "Log s' = Log t"
    "length (Actors s') = length (Actors t)"
    by (simp_all add: assms(2))
  show "grows t s'"
    unfolding assms(2) by (blast intro: grows_trans grows_engine)
  show "IsValid s' (Some h)" using assms(1) by (simp add: assms(2))
  show "FullyActive s' h"
    unfolding assms(2) by (rule SetActorActive_True) (simp add: assms(1))
qed

text \<open>What a returning call has done, whichever way it went.\<close>

lemma SpawnObject_result:
  assumes res: "SpawnObject hst s (Some cls) loc rot pt = Inr (p, s')"
    and world: "WorldAvailable s"
  shows "grows s s'"
    and "(fst (PopValid s (pool_of s (Some cls))), pool_of s' (Some cls))
           = PopValid s (pool_of s (Some cls))"
    and "c \<noteq> Some cls \<Longrightarrow> Find (ObjectPools s') c = Find (ObjectPools s) c"
    and "Find (ObjectPools s') (Some cls) \<noteq> None"
    and "distinct (map fst (ObjectPools s)) \<Longrightarrow> distinct (map fst (ObjectPools s'))"
    and "WorldAvailable s' = WorldAvailable s"
    and "Log s' = Log s"
    and "p = Some h \<Longrightarrow> IsValid s' (Some h) \<and> FullyActive s' h"
    and "fst (PopValid s (pool_of s (Some cls))) \<noteq> None \<Longrightarrow>
           p = fst (PopValid s (pool_of s (Some cls)))
           \<and> length (Actors s') = length (Actors s)
           \<and> ActorToClassMap s' = ActorToClassMap s \<and> MainPoolRoot s' = MainPoolRoot s"
    and "fst (PopValid s (pool_of s (Some cls))) = None \<Longrightarrow>
           (p = None \<and> hst (Actors s) cls = None \<and> Actors s' = Actors s
            \<and> ActorToClassMap s' = ActorToClassMap s \<and> MainPoolRoot s' = MainPoolRoot s
            \<and> PoolRoots s' = PoolRoots s)
           \<or> (p = Some (length (Actors s)) \<and> hst (Actors s) cls \<noteq> None
               \<and> ActorToClassMap s' = Add (ActorToClassMap s) p (Some cls)
               \<and> (MainPoolRoot s' = MainPoolRoot s
                    \<or> (\<exists>r. MainPoolRoot s' = Some r \<and> length (Actors s) < r
                          \<and> r < length (Actors s'))))"
proof -
  obtain q s1 where take: "TakeFromPool s (Some cls) = (q, s1)"
    by (cases "TakeFromPool s (Some cls)")
  note fr = TakeFromPool_frame [OF take]
  note pools = TakeFromPool_pools [OF take]
  have q: "fst (PopValid s (pool_of s (Some cls))) = q"
    using pools(1) by (metis fst_conv)
  have all: "grows s s' \<and> ObjectPools s' = ObjectPools s1
      \<and> WorldAvailable s' = WorldAvailable s \<and> Log s' = Log s
      \<and> (\<forall>h. p = Some h \<longrightarrow> IsValid s' (Some h) \<and> FullyActive s' h)
      \<and> (q \<noteq> None \<longrightarrow> p = q \<and> length (Actors s') = length (Actors s)
            \<and> ActorToClassMap s' = ActorToClassMap s \<and> MainPoolRoot s' = MainPoolRoot s)
      \<and> (q = None \<longrightarrow>
           (p = None \<and> hst (Actors s) cls = None \<and> Actors s' = Actors s
            \<and> ActorToClassMap s' = ActorToClassMap s \<and> MainPoolRoot s' = MainPoolRoot s
            \<and> PoolRoots s' = PoolRoots s)
           \<or> (p = Some (length (Actors s)) \<and> hst (Actors s) cls \<noteq> None
               \<and> ActorToClassMap s' = Add (ActorToClassMap s) p (Some cls)
               \<and> (MainPoolRoot s' = MainPoolRoot s
                    \<or> (\<exists>r. MainPoolRoot s' = Some r \<and> length (Actors s) < r
                          \<and> r < length (Actors s')))))"
    using res world take
  proof (cases rule: SpawnObject_cases)
    case (reused h)
    have v: "IsValid s1 (Some h)" using take reused(1) by (simp add: TakeFromPool_valid)
    note pa = PlaceAndActivate_facts [OF v reused(3)]
    have "grows s s'" using TakeFromPool_grows [OF take] pa(8) by (rule grows_trans)
    then show ?thesis using reused(1,2) pa fr by simp
  next
    case refused
    then show ?thesis using fr TakeFromPool_grows [OF take] by simp
  next
    case (constructed a s2 Root s3)
    let ?s2 = "s2\<lparr>ActorToClassMap := Add (ActorToClassMap s2) (Some a) (Some cls)\<rparr>"
    note sp = SpawnActor_result [OF constructed(3)]
    note g = GetOrCreatePoolRoot_result [OF constructed(4)]
    have a: "a = length (Actors s)" "length (Actors s2) = Suc a" "IsValid s2 (Some a)"
      "hst (Actors s) cls \<noteq> None"
      using sp(9) [OF refl] fr(6) by auto
    have g12: "grows s1 s2" by (rule sp(7))
    have g2: "grows s2 ?s2" by (simp add: grows_def)
    have "IsValid ?s2 (Some a)" using a(3) by (simp add: IsValid_Some)
    with g(5) have v3: "IsValid s3 (Some a)" by (rule grows_IsValid)
    let ?t = "AttachToActor s3 a Root"
    have vt: "IsValid ?t (Some a)" using v3 by simp
    note pa = PlaceAndActivate_facts [OF vt constructed(5)]
    have "grows s s3"
      using TakeFromPool_grows [OF take] g12 g2 g(5) by (blast intro: grows_trans)
    moreover have "grows s3 ?t" by simp
    ultimately have gr: "grows s s'" using pa(8) by (blast intro: grows_trans)
    have len: "length (Actors s') = length (Actors s3)" using pa(7) by simp
    have main: "MainPoolRoot s' = MainPoolRoot s
                    \<or> (\<exists>r. MainPoolRoot s' = Some r \<and> length (Actors s) < r
                          \<and> r < length (Actors s'))"
      using g(6) pa(4) sp(4) fr(3) a(1,2) len by auto
    have "ActorToClassMap s' = Add (ActorToClassMap s) (Some a) (Some cls)"
      using pa(2) g(2) sp(2) fr(1) by simp
    moreover have "ObjectPools s' = ObjectPools s1" using pa(1) g(1) sp(1) by simp
    moreover have "WorldAvailable s' = WorldAvailable s" using pa(5) g(3) sp(5) fr(4) by simp
    moreover have "Log s' = Log s" using pa(6) g(4) sp(6) fr(5) by simp
    ultimately show ?thesis
      using gr main constructed(1,2) a(1,4) pa(9,10) by simp
  qed
  show "grows s s'" using all by simp
  have op: "ObjectPools s' = ObjectPools s1" using all by simp
  show "(fst (PopValid s (pool_of s (Some cls))), pool_of s' (Some cls))
           = PopValid s (pool_of s (Some cls))"
  proof -
    have "pool_of s' (Some cls) = pool_of s1 (Some cls)" by (simp add: pool_of_def op)
    then show ?thesis using pools(1) by (simp add: q)
  qed
  show "c \<noteq> Some cls \<Longrightarrow> Find (ObjectPools s') c = Find (ObjectPools s) c"
    using pools(2) op by simp
  show "Find (ObjectPools s') (Some cls) \<noteq> None" using pools(3) op by simp
  show "distinct (map fst (ObjectPools s)) \<Longrightarrow> distinct (map fst (ObjectPools s'))"
    using pools(4) op by simp
  show "WorldAvailable s' = WorldAvailable s" "Log s' = Log s" using all by simp_all
  show "p = Some h \<Longrightarrow> IsValid s' (Some h) \<and> FullyActive s' h" using all by simp
  show "fst (PopValid s (pool_of s (Some cls))) \<noteq> None \<Longrightarrow>
           p = fst (PopValid s (pool_of s (Some cls)))
           \<and> length (Actors s') = length (Actors s)
           \<and> ActorToClassMap s' = ActorToClassMap s \<and> MainPoolRoot s' = MainPoolRoot s"
    using all unfolding q by blast
  show "fst (PopValid s (pool_of s (Some cls))) = None \<Longrightarrow>
           (p = None \<and> hst (Actors s) cls = None \<and> Actors s' = Actors s
            \<and> ActorToClassMap s' = ActorToClassMap s \<and> MainPoolRoot s' = MainPoolRoot s
            \<and> PoolRoots s' = PoolRoots s)
           \<or> (p = Some (length (Actors s)) \<and> hst (Actors s) cls \<noteq> None
               \<and> ActorToClassMap s' = Add (ActorToClassMap s) p (Some cls)
               \<and> (MainPoolRoot s' = MainPoolRoot s
                    \<or> (\<exists>r. MainPoolRoot s' = Some r \<and> length (Actors s) < r
                          \<and> r < length (Actors s'))))"
    using all unfolding q by blast
qed

lemma PopValid_Nil [simp]: "PopValid s [] = (None, [])"
  by (simp add: PopValid.simps)

lemma PopValid_snoc [simp]:
  "PopValid s (xs @ [x]) = (if IsValid s x then (x, xs) else PopValid s xs)"
  by (subst PopValid.simps) simp

lemma PopValid_all_invalid: "\<forall>a\<in>set xs. \<not> IsValid s a \<Longrightarrow> PopValid s xs = (None, [])"
  by (induction xs rule: rev_induct) simp_all

subsection \<open>ReturnObjectToPool\<close>

lemma ReturnObjectToPool_invalid: "\<not> IsValid s p \<Longrightarrow> ReturnObjectToPool s p = s"
  by (simp add: ReturnObjectToPool_def)

lemma ReturnObjectToPool_recorded:
  assumes "IsValid s (Some x)" and "Find (ActorToClassMap s) (Some x) = Some (Some T)"
  shows "ReturnObjectToPool s (Some x) =
     (SetActorActive s (Some x) False)\<lparr>ObjectPools :=
        Add (fst (FindOrAdd (ObjectPools s) (Some T))) (Some T)
          (snd (FindOrAdd (ObjectPools s) (Some T))
             \<lparr>InactiveActors := AddUnique (pool_of s (Some T)) (Some x)\<rparr>)\<rparr>"
proof -
  obtain m P where fa: "FindOrAdd (ObjectPools s) (Some T) = (m, P)"
    by (cases "FindOrAdd (ObjectPools s) (Some T)")
  show ?thesis
    using assms pool_of_FindOrAdd [OF fa] by (simp add: ReturnObjectToPool_def fa)
qed

lemma ReturnObjectToPool_foreign:
  assumes "IsValid s (Some x)" and "\<And>T. Find (ActorToClassMap s) (Some x) \<noteq> Some (Some T)"
  shows "ReturnObjectToPool s (Some x) =
     Destroy (s\<lparr>Log := Log s @ [NotPooledWarning s (Some x)]\<rparr>) (Some x)"
  using assms by (simp add: ReturnObjectToPool_def split: option.split)

subsection \<open>The concrete runs, spelled out\<close>

text \<open>
  After one \<^verbatim>\<open>SpawnObject\<close> of class 7 at \<open>(1, 2, 3)\<close> in the category \<^verbatim>\<open>GameObjects\<close> and the
  return of the actor: actor 0 is the pooled actor, actor 1 the main root, actor 2 the root
  of the category.
\<close>

lemma DemoPooled_state:
  "DemoPooled =
     \<lparr>ObjectPools = [(Some 7, \<lparr>InactiveActors = [Some 0], PoolRoot = None\<rparr>)],
      ActorToClassMap = [(Some 0, Some 7)],
      PoolRoots = [(GameObjects, Some 2)],
      MainPoolRoot = Some 1,
      WorldAvailable = True,
      Actors =
        [\<lparr>bValid = True, bHidden = True, bCollision = False, bTickEnabled = False,
            Components = [False, False], AttachParent = Some 2, Location = (1, 2, 3),
            Rotation = (0, 0, 0), ActorLabel = [], ActorName = ''Actor''\<rparr>,
         \<lparr>bValid = True, bHidden = False, bCollision = True, bTickEnabled = True,
            Components = [True, False], AttachParent = None, Location = (0, 0, 0),
            Rotation = (0, 0, 0), ActorLabel = ''ObjectPools_Root'', ActorName = ''Actor''\<rparr>,
         \<lparr>bValid = True, bHidden = False, bCollision = True, bTickEnabled = True,
            Components = [True, False], AttachParent = Some 1, Location = (0, 0, 0),
            Rotation = (0, 0, 0), ActorLabel = ''PoolRoot_GameObjects'', ActorName = ''Actor''\<rparr>],
      Log = []\<rparr>"
  by code_simp

text \<open>\<^verbatim>\<open>Deinitialize\<close> there turns \<open>bValid\<close> off in actors 0 and 1 and empties the maps.\<close>

lemma Deinitialize_DemoPooled_state:
  "Deinitialize DemoPooled =
     \<lparr>ObjectPools = [], ActorToClassMap = [], PoolRoots = [], MainPoolRoot = None,
      WorldAvailable = True,
      Actors =
        [\<lparr>bValid = False, bHidden = True, bCollision = False, bTickEnabled = False,
            Components = [False, False], AttachParent = Some 2, Location = (1, 2, 3),
            Rotation = (0, 0, 0), ActorLabel = [], ActorName = ''Actor''\<rparr>,
         \<lparr>bValid = False, bHidden = False, bCollision = True, bTickEnabled = True,
            Components = [True, False], AttachParent = None, Location = (0, 0, 0),
            Rotation = (0, 0, 0), ActorLabel = ''ObjectPools_Root'', ActorName = ''Actor''\<rparr>,
         \<lparr>bValid = True, bHidden = False, bCollision = True, bTickEnabled = True,
            Components = [True, False], AttachParent = Some 1, Location = (0, 0, 0),
            Rotation = (0, 0, 0), ActorLabel = ''PoolRoot_GameObjects'', ActorName = ''Actor''\<rparr>],
      Log = []\<rparr>"
  by code_simp

text \<open>
  After \<^verbatim>\<open>InitializePool\<close> of class 7 with a count of 5: the same three actors, the one of
  class 7 at the origin.
\<close>

lemma DemoPrewarmed_state:
  "DemoPrewarmed =
     \<lparr>ObjectPools = [(Some 7, \<lparr>InactiveActors = [Some 0], PoolRoot = None\<rparr>)],
      ActorToClassMap = [(Some 0, Some 7)],
      PoolRoots = [(GameObjects, Some 2)],
      MainPoolRoot = Some 1,
      WorldAvailable = True,
      Actors =
        [\<lparr>bValid = True, bHidden = True, bCollision = False, bTickEnabled = False,
            Components = [False, False], AttachParent = Some 2, Location = (0, 0, 0),
            Rotation = (0, 0, 0), ActorLabel = [], ActorName = ''Actor''\<rparr>,
         \<lparr>bValid = True, bHidden = False, bCollision = True, bTickEnabled = True,
            Components = [True, False], AttachParent = None, Location = (0, 0, 0),
            Rotation = (0, 0, 0), ActorLabel = ''ObjectPools_Root'', ActorName = ''Actor''\<rparr>,
         \<lparr>bValid = True, bHidden = False, bCollision = True, bTickEnabled = True,
            Components = [True, False], AttachParent = Some 1, Location = (0, 0, 0),
            Rotation = (0, 0, 0), ActorLabel = ''PoolRoot_GameObjects'', ActorName = ''Actor''\<rparr>],
      Log = []\<rparr>"
  by code_simp

section \<open>Properties of single calls\<close>

subsection \<open>Activation\<close>

text \<open>
  C9. The actor that \<^verbatim>\<open>SpawnObject\<close> returns is valid, shown, collides, ticks, and all its
  components are active, whatever the class and whether it came from the pool or was
  constructed. After \<^verbatim>\<open>ReturnObjectToPool\<close> of a valid actor that the pooler recorded, the
  actor is hidden, does not collide, does not tick, and all its components are inactive.
\<close>

theorem activation_after_acquire_and_release:
  "(SpawnObject hst s c loc rot pt = Inr (Some h, s') \<longrightarrow>
      IsValid s' (Some h) \<and> FullyActive s' h)
   \<and> (IsValid s (Some x) \<and> Find (ActorToClassMap s) (Some x) = Some (Some T) \<longrightarrow>
      FullyInactive (ReturnObjectToPool s (Some x)) x)"
proof (rule conjI; rule impI)
  assume res: "SpawnObject hst s c loc rot pt = Inr (Some h, s')"
  then obtain cls where c: "c = Some cls" by (cases c) simp_all
  from res have w: "WorldAvailable s" by (rule contrapos_pp) simp
  from SpawnObject_result(8) [OF res [unfolded c] w refl]
  show "IsValid s' (Some h) \<and> FullyActive s' h" .
next
  assume a: "IsValid s (Some x) \<and> Find (ActorToClassMap s) (Some x) = Some (Some T)"
  then have "FullyInactive (SetActorActive s (Some x) False) x"
    by (simp add: SetActorActive_False)
  then show "FullyInactive (ReturnObjectToPool s (Some x)) x"
    using a by (simp add: ReturnObjectToPool_recorded FullyInactive_def)
qed

lemma demo_acquire:
  "SpawnObject WillingHost FreshPooler (Some 7) (1, 2, 3) ZeroRotator GameObjects
     = Inr (Some 0, DemoActive)"
  unfolding DemoActive_def by code_simp

theorem activation_after_acquire_and_release_witness:
  "SpawnObject WillingHost FreshPooler (Some 7) (1, 2, 3) ZeroRotator GameObjects
     = Inr (Some 0, DemoActive)
   \<and> IsValid DemoActive (Some 0) \<and> FullyActive DemoActive 0
   \<and> Find (ActorToClassMap DemoActive) (Some 0) = Some (Some 7)
   \<and> FullyInactive (ReturnObjectToPool DemoActive (Some 0)) 0"
proof -
  have rec: "Find (ActorToClassMap DemoActive) (Some 0) = Some (Some 7)" by code_simp
  note t = activation_after_acquire_and_release
    [of WillingHost FreshPooler "Some 7" "(1, 2, 3)" ZeroRotator GameObjects 0 DemoActive]
  note u = activation_after_acquire_and_release [of _ DemoActive _ _ _ _ _ _ 0 7]
  from t demo_acquire have act: "IsValid DemoActive (Some 0) \<and> FullyActive DemoActive 0" by blast
  with u rec have "FullyInactive (ReturnObjectToPool DemoActive (Some 0)) 0" by blast
  with act rec demo_acquire show ?thesis by blast
qed

subsection \<open>Stale handles\<close>




subsection \<open>Refused construction\<close>

text \<open>
  C2, as the code has it. With a world, a pool of the class that holds no valid actor, and
  an engine that refuses to construct, \<^verbatim>\<open>SpawnObject\<close> returns null. The ownership index,
  the category roots, the main root, the actors and the log are as before, and so is the
  pool of every other class. The pool of the requested class exists afterwards and is
  empty: it is created if the class had none, and its stale handles are dropped.
\<close>

theorem refused_acquire_touches_only_own_pool:
  assumes "WorldAvailable s"
    and "\<forall>a\<in>set (pool_of s (Some T)). \<not> IsValid s a"
    and "hst (Actors s) T = None"
  shows "\<exists>s'. SpawnObject hst s (Some T) loc rot pt = Inr (None, s')
    \<and> ActorToClassMap s' = ActorToClassMap s \<and> PoolRoots s' = PoolRoots s
    \<and> MainPoolRoot s' = MainPoolRoot s \<and> Actors s' = Actors s \<and> Log s' = Log s
    \<and> WorldAvailable s' = WorldAvailable s
    \<and> (\<forall>c. c \<noteq> Some T \<longrightarrow> Find (ObjectPools s') c = Find (ObjectPools s) c)
    \<and> Find (ObjectPools s') (Some T) \<noteq> None \<and> pool_of s' (Some T) = []"
proof -
  obtain q s1 where take: "TakeFromPool s (Some T) = (q, s1)"
    by (cases "TakeFromPool s (Some T)")
  note fr = TakeFromPool_frame [OF take]
  note pools = TakeFromPool_pools [OF take]
  from pools(1) PopValid_all_invalid [OF assms(2)]
  have q: "q = None" and empty: "pool_of s1 (Some T) = []" by simp_all
  have "SpawnActor hst s1 T loc rot = (None, s1)"
    using assms(3) fr(6) by (simp add: SpawnActor_refused)
  then have "SpawnObject hst s (Some T) loc rot pt = Inr (None, s1)"
    using assms(1) take q by (simp add: SpawnObject_def SpawnNew_def PlaceAndActivate_def)
  then show ?thesis
    using fr pools(2,3) empty by auto
qed

theorem refused_acquire_touches_only_own_pool_witness:
  "WorldAvailable FreshPooler
   \<and> pool_of FreshPooler (Some 7) = []
   \<and> RefusingHost (Actors FreshPooler) 7 = None
   \<and> (\<exists>s'. SpawnObject RefusingHost FreshPooler (Some 7) ZeroVector ZeroRotator GameObjects
            = Inr (None, s')
    \<and> ActorToClassMap s' = ActorToClassMap FreshPooler \<and> PoolRoots s' = PoolRoots FreshPooler
    \<and> MainPoolRoot s' = MainPoolRoot FreshPooler \<and> Actors s' = Actors FreshPooler
    \<and> Log s' = Log FreshPooler \<and> WorldAvailable s' = WorldAvailable FreshPooler
    \<and> (\<forall>c. c \<noteq> Some 7 \<longrightarrow> Find (ObjectPools s') c = Find (ObjectPools FreshPooler) c)
    \<and> Find (ObjectPools s') (Some 7) \<noteq> None \<and> pool_of s' (Some 7) = [])"
proof -
  have w: "WorldAvailable FreshPooler" by (simp add: FreshPooler_def NewPooler_def)
  have p: "pool_of FreshPooler (Some 7) = []"
    by (simp add: FreshPooler_def NewPooler_def pool_of_def Find_def)
  then have e: "\<forall>a\<in>set (pool_of FreshPooler (Some 7)). \<not> IsValid FreshPooler a" by simp
  have r: "RefusingHost (Actors FreshPooler) 7 = None" by (simp add: RefusingHost_def)
  from refused_acquire_touches_only_own_pool
    [of FreshPooler 7 RefusingHost ZeroVector ZeroRotator GameObjects, OF w e r] w p r
  show ?thesis by blast
qed

text \<open>
  C2, as the spec has it, fails: a refused \<^verbatim>\<open>SpawnObject\<close> of a class that had no pool
  leaves an empty pool for it in \<^verbatim>\<open>ObjectPools\<close>, because \<^verbatim>\<open>FindOrAdd\<close> runs before the
  construction is tried.
\<close>

theorem refused_acquire_leaves_pool_entry:
  "pool_of FreshPooler (Some 7) = []
   \<and> Find (ObjectPools FreshPooler) (Some 7) = None
   \<and> RefusingHost (Actors FreshPooler) 7 = None
   \<and> SpawnObject RefusingHost FreshPooler (Some 7) ZeroVector ZeroRotator GameObjects
       = Inr (None, FreshPooler\<lparr>ObjectPools := [(Some 7, EmptyPool)]\<rparr>)
   \<and> ObjectPools (FreshPooler\<lparr>ObjectPools := [(Some 7, EmptyPool)]\<rparr>) \<noteq> ObjectPools FreshPooler"
  by code_simp

section \<open>The invariant of the reachable states\<close>

subsection \<open>Its preservation by SpawnObject and ReturnObjectToPool\<close>

lemma pooler_invD:
  assumes "pooler_inv s"
  shows "distinct (map fst (ObjectPools s))"
    and "distinct (pool_of s c)"
    and "a \<in> set (pool_of s c) \<Longrightarrow> c \<noteq> None \<and> Find (ActorToClassMap s) a = Some c"
    and "Find (ActorToClassMap s) a = Some c \<Longrightarrow> \<exists>h. a = Some h \<and> h < length (Actors s)"
    and "MainPoolRoot s = Some h \<Longrightarrow>
           h < length (Actors s) \<and> Find (ActorToClassMap s) (Some h) = None"
  using assms unfolding pooler_inv_def by blast+

lemma pooler_inv_NewPooler: "pooler_inv (NewPooler world actors lg)"
  by (simp add: pooler_inv_def NewPooler_def pool_of_def Find_def)

lemma pooler_inv_world:
  assumes "pooler_inv s" and "length (Actors s) \<le> length actors"
  shows "pooler_inv (s\<lparr>Actors := actors\<rparr>)"
proof -
  have p: "pool_of (s\<lparr>Actors := actors\<rparr>) = pool_of s" by (simp add: pool_of_def fun_eq_iff)
  note i = pooler_invD [OF assms(1)]
  show ?thesis
    unfolding pooler_inv_def p
  proof (intro conjI allI impI ballI)
    show "distinct (map fst (ObjectPools (s\<lparr>Actors := actors\<rparr>)))" using i(1) by simp
  next
    fix k show "distinct (pool_of s k)" by (rule i(2))
  next
    fix k a assume "a \<in> set (pool_of s k)"
    from i(3) [OF this] show "k \<noteq> None" by simp
  next
    fix k a assume "a \<in> set (pool_of s k)"
    from i(3) [OF this] show "Find (ActorToClassMap (s\<lparr>Actors := actors\<rparr>)) a = Some k" by simp
  next
    fix a k assume "Find (ActorToClassMap (s\<lparr>Actors := actors\<rparr>)) a = Some k"
    then have "Find (ActorToClassMap s) a = Some k" by simp
    from i(4) [OF this] assms(2)
    show "\<exists>h. a = Some h \<and> h < length (Actors (s\<lparr>Actors := actors\<rparr>))" by auto
  next
    fix h assume "MainPoolRoot (s\<lparr>Actors := actors\<rparr>) = Some h"
    then have "MainPoolRoot s = Some h" by simp
    from i(5) [OF this] assms(2) show "h < length (Actors (s\<lparr>Actors := actors\<rparr>))" by simp
  next
    fix h assume "MainPoolRoot (s\<lparr>Actors := actors\<rparr>) = Some h"
    then have "MainPoolRoot s = Some h" by simp
    from i(5) [OF this] show "Find (ActorToClassMap (s\<lparr>Actors := actors\<rparr>)) (Some h) = None" by simp
  qed
qed

lemma pooler_invI:
  assumes "distinct (map fst (ObjectPools s))"
    and "\<And>c. distinct (pool_of s c)"
    and "\<And>c a. a \<in> set (pool_of s c) \<Longrightarrow> c \<noteq> None \<and> Find (ActorToClassMap s) a = Some c"
    and "\<And>a c. Find (ActorToClassMap s) a = Some c \<Longrightarrow> \<exists>h. a = Some h \<and> h < length (Actors s)"
    and "\<And>h. MainPoolRoot s = Some h \<Longrightarrow>
           h < length (Actors s) \<and> Find (ActorToClassMap s) (Some h) = None"
  shows "pooler_inv s"
  unfolding pooler_inv_def using assms by blast

lemma pooler_inv_SpawnObject:
  assumes inv: "pooler_inv s" and res: "SpawnObject hst s c loc rot pt = Inr (p, s')"
  shows "pooler_inv s'"
proof (cases "c = None \<or> \<not> WorldAvailable s")
  case True
  with res have "s' = s" by auto
  with inv show ?thesis by simp
next
  case False
  then obtain cls where c: "c = Some cls" and w: "WorldAvailable s" by auto
  note r = SpawnObject_result [OF res [unfolded c] w]
  note i = pooler_invD [OF inv]
  let ?q = "fst (PopValid s (pool_of s (Some cls)))"
  have len: "length (Actors s) \<le> length (Actors s')" using r(1) by (rule grows_length)
  have pool_other: "pool_of s' k = pool_of s k" if "k \<noteq> Some cls" for k
    using r(3) [OF that] by (rule pool_of_other)
  obtain dropped where pre: "pool_of s (Some cls) = pool_of s' (Some cls) @ dropped"
    using PopValid_prefix [OF r(2) [symmetric]] by blast
  have sub: "set (pool_of s' k) \<subseteq> set (pool_of s k)" for k
    using pool_other [of k] pre by (cases "k = Some cls") auto
  have dist: "distinct (pool_of s' k)" for k
    using pool_other [of k] pre i(2) [of k] i(2) [of "Some cls"] by (cases "k = Some cls") auto
  have map_cases: "ActorToClassMap s' = ActorToClassMap s
      \<or> (p = Some (length (Actors s))
          \<and> ActorToClassMap s' = Add (ActorToClassMap s) (Some (length (Actors s))) (Some cls))"
    using r(9) r(10) by (cases "?q = None") auto
  have keep: "Find (ActorToClassMap s') a = Some k" if "Find (ActorToClassMap s) a = Some k" for a k
  proof -
    from i(4) [OF that] have "a \<noteq> Some (length (Actors s))" by auto
    with map_cases that show ?thesis by (auto simp: Find_Add)
  qed
  have new: "\<exists>h. a = Some h \<and> h < length (Actors s')" if "Find (ActorToClassMap s') a = Some k" for a k
  proof (cases "Find (ActorToClassMap s) a = Some k")
    case True
    from i(4) [OF this] len show ?thesis by auto
  next
    case False
    with map_cases that have "a = p" "p = Some (length (Actors s))"
      by (auto simp: Find_Add split: if_splits)
    with r(8) [of "length (Actors s)"] show ?thesis by (simp add: IsValid_Some)
  qed
  have main: "h < length (Actors s') \<and> Find (ActorToClassMap s') (Some h) = None"
    if m: "MainPoolRoot s' = Some h" for h
  proof (cases "MainPoolRoot s' = MainPoolRoot s")
    case True
    with m i(5) [of h] have h: "h < length (Actors s)" "Find (ActorToClassMap s) (Some h) = None"
      by simp_all
    with map_cases have "Find (ActorToClassMap s') (Some h) = None" by (auto simp: Find_Add)
    with h(1) len show ?thesis by simp
  next
    case False
    with r(9) r(10) m have h: "length (Actors s) < h" "h < length (Actors s')"
      by (cases "?q = None"; auto)+
    have "Find (ActorToClassMap s) (Some h) = None"
    proof (rule ccontr)
      assume "Find (ActorToClassMap s) (Some h) \<noteq> None"
      then obtain k where "Find (ActorToClassMap s) (Some h) = Some k" by auto
      from i(4) [OF this] h(1) show False by simp
    qed
    with map_cases h(1) have "Find (ActorToClassMap s') (Some h) = None" by (auto simp: Find_Add)
    with h(2) show ?thesis by simp
  qed
  show ?thesis
  proof (rule pooler_invI)
    show "distinct (map fst (ObjectPools s'))" using r(5) i(1) by simp
  next
    fix k show "distinct (pool_of s' k)" by (rule dist)
  next
    fix k a assume "a \<in> set (pool_of s' k)"
    with sub have "a \<in> set (pool_of s k)" by auto
    from i(3) [OF this] keep show "k \<noteq> None \<and> Find (ActorToClassMap s') a = Some k" by simp
  next
    fix a k assume "Find (ActorToClassMap s') a = Some k"
    then show "\<exists>h. a = Some h \<and> h < length (Actors s')" by (rule new)
  next
    fix h assume "MainPoolRoot s' = Some h"
    then show "h < length (Actors s') \<and> Find (ActorToClassMap s') (Some h) = None" by (rule main)
  qed
qed

lemma ReturnObjectToPool_recorded_facts:
  assumes "IsValid s (Some x)" and "Find (ActorToClassMap s) (Some x) = Some (Some T)"
  shows "pool_of (ReturnObjectToPool s (Some x)) c =
           (if c = Some T then AddUnique (pool_of s (Some T)) (Some x) else pool_of s c)"
    and "c \<noteq> Some T \<Longrightarrow>
           Find (ObjectPools (ReturnObjectToPool s (Some x))) c = Find (ObjectPools s) c"
    and "distinct (map fst (ObjectPools s)) \<Longrightarrow>
           distinct (map fst (ObjectPools (ReturnObjectToPool s (Some x))))"
    and "ActorToClassMap (ReturnObjectToPool s (Some x)) = ActorToClassMap s"
    and "PoolRoots (ReturnObjectToPool s (Some x)) = PoolRoots s"
    and "MainPoolRoot (ReturnObjectToPool s (Some x)) = MainPoolRoot s"
    and "WorldAvailable (ReturnObjectToPool s (Some x)) = WorldAvailable s"
    and "Log (ReturnObjectToPool s (Some x)) = Log s"
    and "Actors (ReturnObjectToPool s (Some x)) = Actors (SetActorActive s (Some x) False)"
    and "IsValid (ReturnObjectToPool s (Some x)) p = IsValid s p"
proof -
  obtain m P where fa: "FindOrAdd (ObjectPools s) (Some T) = (m, P)"
    by (cases "FindOrAdd (ObjectPools s) (Some T)")
  let ?t = "SetActorActive s (Some x) False"
  have eq: "ReturnObjectToPool s (Some x) =
      ?t\<lparr>ObjectPools := Add m (Some T) (P\<lparr>InactiveActors := AddUnique (pool_of s (Some T)) (Some x)\<rparr>)\<rparr>"
    using ReturnObjectToPool_recorded [OF assms] by (simp add: fa)
  note f = FindOrAdd_result [OF fa]
  show "pool_of (ReturnObjectToPool s (Some x)) c =
           (if c = Some T then AddUnique (pool_of s (Some T)) (Some x) else pool_of s c)"
    using f(2) [of c] by (simp add: eq pool_of_def Find_Add)
  show "c \<noteq> Some T \<Longrightarrow>
           Find (ObjectPools (ReturnObjectToPool s (Some x))) c = Find (ObjectPools s) c"
    using f(2) [of c] by (simp add: eq Find_Add)
  show "distinct (map fst (ObjectPools s)) \<Longrightarrow>
           distinct (map fst (ObjectPools (ReturnObjectToPool s (Some x))))"
    using f(4) by (simp add: eq distinct_keys_Add)
  show "ActorToClassMap (ReturnObjectToPool s (Some x)) = ActorToClassMap s"
    "PoolRoots (ReturnObjectToPool s (Some x)) = PoolRoots s"
    "MainPoolRoot (ReturnObjectToPool s (Some x)) = MainPoolRoot s"
    "WorldAvailable (ReturnObjectToPool s (Some x)) = WorldAvailable s"
    "Log (ReturnObjectToPool s (Some x)) = Log s"
    "Actors (ReturnObjectToPool s (Some x)) = Actors (SetActorActive s (Some x) False)"
    by (simp_all add: eq)
  then have "IsValid (ReturnObjectToPool s (Some x)) p = IsValid ?t p"
    by (intro IsValid_cong)
  then show "IsValid (ReturnObjectToPool s (Some x)) p = IsValid s p" by simp
qed

lemma ReturnObjectToPool_foreign_facts:
  assumes "IsValid s (Some x)" and "\<And>T. Find (ActorToClassMap s) (Some x) \<noteq> Some (Some T)"
  shows "ObjectPools (ReturnObjectToPool s (Some x)) = ObjectPools s"
    and "ActorToClassMap (ReturnObjectToPool s (Some x)) = ActorToClassMap s"
    and "PoolRoots (ReturnObjectToPool s (Some x)) = PoolRoots s"
    and "MainPoolRoot (ReturnObjectToPool s (Some x)) = MainPoolRoot s"
    and "WorldAvailable (ReturnObjectToPool s (Some x)) = WorldAvailable s"
    and "Log (ReturnObjectToPool s (Some x)) = Log s @ [NotPooledWarning s (Some x)]"
    and "length (Actors (ReturnObjectToPool s (Some x))) = length (Actors s)"
    and "IsValid (ReturnObjectToPool s (Some x)) p = (IsValid s p \<and> p \<noteq> Some x)"
proof -
  note eq = ReturnObjectToPool_foreign [OF assms]
  show "ObjectPools (ReturnObjectToPool s (Some x)) = ObjectPools s"
    "ActorToClassMap (ReturnObjectToPool s (Some x)) = ActorToClassMap s"
    "PoolRoots (ReturnObjectToPool s (Some x)) = PoolRoots s"
    "MainPoolRoot (ReturnObjectToPool s (Some x)) = MainPoolRoot s"
    "WorldAvailable (ReturnObjectToPool s (Some x)) = WorldAvailable s"
    "Log (ReturnObjectToPool s (Some x)) = Log s @ [NotPooledWarning s (Some x)]"
    "length (Actors (ReturnObjectToPool s (Some x))) = length (Actors s)"
    by (simp_all add: eq)
  have "IsValid (s\<lparr>Log := Log s @ [NotPooledWarning s (Some x)]\<rparr>) p = IsValid s p"
    by (rule IsValid_cong) simp
  then show "IsValid (ReturnObjectToPool s (Some x)) p = (IsValid s p \<and> p \<noteq> Some x)"
    by (simp add: eq IsValid_Destroy)
qed

text \<open>The three ways a call of \<^verbatim>\<open>ReturnObjectToPool\<close> can go.\<close>

lemma ReturnObjectToPool_cases:
  obtains (invalid) "\<not> IsValid s p" "ReturnObjectToPool s p = s"
    | (recorded) x T where "p = Some x" "IsValid s (Some x)"
        "Find (ActorToClassMap s) (Some x) = Some (Some T)"
    | (foreign) x where "p = Some x" "IsValid s (Some x)"
        "\<And>T. Find (ActorToClassMap s) (Some x) \<noteq> Some (Some T)"
proof (cases "IsValid s p")
  case False
  then show thesis using invalid by (simp add: ReturnObjectToPool_invalid)
next
  case True
  then obtain x where p: "p = Some x" by (cases p) simp_all
  show thesis
  proof (cases "\<exists>T. Find (ActorToClassMap s) (Some x) = Some (Some T)")
    case True
    then show thesis using recorded p \<open>IsValid s p\<close> by auto
  next
    case False
    then show thesis using foreign p \<open>IsValid s p\<close> by auto
  qed
qed

lemma pooler_inv_ReturnObjectToPool:
  assumes inv: "pooler_inv s"
  shows "pooler_inv (ReturnObjectToPool s p)"
proof (cases rule: ReturnObjectToPool_cases [of s p])
  case invalid
  with inv show ?thesis by simp
next
  case (recorded x T)
  note i = pooler_invD [OF inv]
  note f = ReturnObjectToPool_recorded_facts [OF recorded(2,3)]
  show ?thesis
    unfolding recorded(1)
  proof (rule pooler_invI)
    show "distinct (map fst (ObjectPools (ReturnObjectToPool s (Some x))))"
      using f(3) i(1) by simp
  next
    fix c show "distinct (pool_of (ReturnObjectToPool s (Some x)) c)"
      using i(2) by (simp add: f(1) AddUnique_distinct)
  next
    fix c a assume "a \<in> set (pool_of (ReturnObjectToPool s (Some x)) c)"
    then have "a \<in> set (pool_of s c) \<or> (c = Some T \<and> a = Some x)"
      by (auto simp: f(1) split: if_splits)
    then show "c \<noteq> None \<and> Find (ActorToClassMap (ReturnObjectToPool s (Some x))) a = Some c"
      using i(3) [of a c] recorded(3) by (auto simp: f(4))
  next
    fix a c assume "Find (ActorToClassMap (ReturnObjectToPool s (Some x))) a = Some c"
    then have "Find (ActorToClassMap s) a = Some c" by (simp add: f(4))
    from i(4) [OF this]
    show "\<exists>h. a = Some h \<and> h < length (Actors (ReturnObjectToPool s (Some x)))"
      by (simp add: f(9))
  next
    fix h assume "MainPoolRoot (ReturnObjectToPool s (Some x)) = Some h"
    then have "MainPoolRoot s = Some h" by (simp add: f(6))
    from i(5) [OF this]
    show "h < length (Actors (ReturnObjectToPool s (Some x)))
        \<and> Find (ActorToClassMap (ReturnObjectToPool s (Some x))) (Some h) = None"
      by (simp add: f(4) f(9))
  qed
next
  case (foreign x)
  note i = pooler_invD [OF inv]
  note f = ReturnObjectToPool_foreign_facts [OF foreign(2,3)]
  have p: "pool_of (ReturnObjectToPool s (Some x)) c = pool_of s c" for c
    by (simp add: pool_of_def f(1))
  show ?thesis
    unfolding foreign(1)
  proof (rule pooler_invI)
    show "distinct (map fst (ObjectPools (ReturnObjectToPool s (Some x))))"
      using i(1) by (simp add: f(1))
  next
    fix c show "distinct (pool_of (ReturnObjectToPool s (Some x)) c)"
      using i(2) by (simp add: p)
  next
    fix c a assume "a \<in> set (pool_of (ReturnObjectToPool s (Some x)) c)"
    then have "a \<in> set (pool_of s c)" by (simp add: p)
    from i(3) [OF this]
    show "c \<noteq> None \<and> Find (ActorToClassMap (ReturnObjectToPool s (Some x))) a = Some c"
      by (simp add: f(2))
  next
    fix a c assume "Find (ActorToClassMap (ReturnObjectToPool s (Some x))) a = Some c"
    then have "Find (ActorToClassMap s) a = Some c" by (simp add: f(2))
    from i(4) [OF this]
    show "\<exists>h. a = Some h \<and> h < length (Actors (ReturnObjectToPool s (Some x)))"
      by (simp add: f(7))
  next
    fix h assume "MainPoolRoot (ReturnObjectToPool s (Some x)) = Some h"
    then have "MainPoolRoot s = Some h" by (simp add: f(4))
    from i(5) [OF this]
    show "h < length (Actors (ReturnObjectToPool s (Some x)))
        \<and> Find (ActorToClassMap (ReturnObjectToPool s (Some x))) (Some h) = None"
      by (simp add: f(2) f(7))
  qed
qed

subsection \<open>Deinitialize\<close>

lemma DestroyIfValid_frame [simp]:
  "ObjectPools (DestroyIfValid a s) = ObjectPools s"
  "ActorToClassMap (DestroyIfValid a s) = ActorToClassMap s"
  "PoolRoots (DestroyIfValid a s) = PoolRoots s"
  "MainPoolRoot (DestroyIfValid a s) = MainPoolRoot s"
  "WorldAvailable (DestroyIfValid a s) = WorldAvailable s"
  "Log (DestroyIfValid a s) = Log s"
  "length (Actors (DestroyIfValid a s)) = length (Actors s)"
  by (simp_all add: DestroyIfValid_def)

lemma IsValid_DestroyIfValid: "IsValid (DestroyIfValid a s) p = (IsValid s p \<and> p \<noteq> a)"
  by (auto simp: DestroyIfValid_def IsValid_Destroy)

lemma fold_DestroyIfValid:
  "ObjectPools (fold DestroyIfValid xs s) = ObjectPools s
   \<and> ActorToClassMap (fold DestroyIfValid xs s) = ActorToClassMap s
   \<and> PoolRoots (fold DestroyIfValid xs s) = PoolRoots s
   \<and> MainPoolRoot (fold DestroyIfValid xs s) = MainPoolRoot s
   \<and> WorldAvailable (fold DestroyIfValid xs s) = WorldAvailable s
   \<and> Log (fold DestroyIfValid xs s) = Log s
   \<and> length (Actors (fold DestroyIfValid xs s)) = length (Actors s)
   \<and> (\<forall>p. IsValid (fold DestroyIfValid xs s) p = (IsValid s p \<and> p \<notin> set xs))"
proof (induction xs arbitrary: s)
  case Nil
  show ?case by simp
next
  case (Cons a xs)
  show ?case
    using Cons.IH [of "DestroyIfValid a s"] by (auto simp: IsValid_DestroyIfValid)
qed

lemma DestroyPooled_fold: "DestroyPooled s = fold DestroyIfValid (AllPooled s) s"
proof -
  have "fold (\<lambda>Pair. fold DestroyIfValid (InactiveActors (snd Pair))) ps t
      = fold DestroyIfValid (concat (map (\<lambda>Pair. InactiveActors (snd Pair)) ps)) t" for ps t
    by (induction ps arbitrary: t) simp_all
  then show ?thesis by (simp add: DestroyPooled_def AllPooled_def)
qed

lemma DestroyPooled_facts:
  "ObjectPools (DestroyPooled s) = ObjectPools s"
  "ActorToClassMap (DestroyPooled s) = ActorToClassMap s"
  "PoolRoots (DestroyPooled s) = PoolRoots s"
  "MainPoolRoot (DestroyPooled s) = MainPoolRoot s"
  "WorldAvailable (DestroyPooled s) = WorldAvailable s"
  "Log (DestroyPooled s) = Log s"
  "length (Actors (DestroyPooled s)) = length (Actors s)"
  "IsValid (DestroyPooled s) p = (IsValid s p \<and> p \<notin> set (AllPooled s))"
  using fold_DestroyIfValid [of "AllPooled s" s] by (simp_all add: DestroyPooled_fold)

lemma Deinitialize_facts:
  "ObjectPools (Deinitialize s) = []"
  "ActorToClassMap (Deinitialize s) = []"
  "PoolRoots (Deinitialize s) = []"
  "MainPoolRoot (Deinitialize s) = None \<or> MainPoolRoot (Deinitialize s) = MainPoolRoot s"
  "WorldAvailable (Deinitialize s) = WorldAvailable s"
  "Log (Deinitialize s) = Log s"
  "length (Actors (Deinitialize s)) = length (Actors s)"
  "IsValid (Deinitialize s) p
     = (IsValid s p \<and> p \<notin> set (AllPooled s) \<and> p \<noteq> MainPoolRoot s)"
  "\<not> IsValid (Deinitialize s) (MainPoolRoot (Deinitialize s))"
proof -
  let ?s2 = "(DestroyPooled s)\<lparr>ObjectPools := [], ActorToClassMap := [], PoolRoots := []\<rparr>"
  have v2: "IsValid ?s2 q = IsValid (DestroyPooled s) q" for q
    by (rule IsValid_cong) simp
  have eq: "Deinitialize s =
      (if IsValid (DestroyPooled s) (MainPoolRoot s)
       then (Destroy ?s2 (MainPoolRoot s))\<lparr>MainPoolRoot := None\<rparr> else ?s2)"
    by (simp add: Deinitialize_def Let_def v2 DestroyPooled_facts)
  have v3: "IsValid ((Destroy ?s2 (MainPoolRoot s))\<lparr>MainPoolRoot := None\<rparr>) q
      = IsValid (Destroy ?s2 (MainPoolRoot s)) q" for q
    by (rule IsValid_cong) simp
  show "ObjectPools (Deinitialize s) = []" "ActorToClassMap (Deinitialize s) = []"
    "PoolRoots (Deinitialize s) = []"
    "MainPoolRoot (Deinitialize s) = None \<or> MainPoolRoot (Deinitialize s) = MainPoolRoot s"
    "WorldAvailable (Deinitialize s) = WorldAvailable s"
    "Log (Deinitialize s) = Log s"
    "length (Actors (Deinitialize s)) = length (Actors s)"
    by (simp_all add: eq DestroyPooled_facts)
  show "IsValid (Deinitialize s) p
     = (IsValid s p \<and> p \<notin> set (AllPooled s) \<and> p \<noteq> MainPoolRoot s)"
    by (auto simp: eq v2 v3 IsValid_Destroy DestroyPooled_facts)
  show "\<not> IsValid (Deinitialize s) (MainPoolRoot (Deinitialize s))"
    by (auto simp: eq v2 v3 IsValid_Destroy DestroyPooled_facts)
qed

lemma pooler_inv_Deinitialize:
  assumes "pooler_inv s"
  shows "pooler_inv (Deinitialize s)"
proof (rule pooler_invI)
  fix h assume "MainPoolRoot (Deinitialize s) = Some h"
  with Deinitialize_facts(4) [of s] have "MainPoolRoot s = Some h" by auto
  from pooler_invD(5) [OF assms this]
  show "h < length (Actors (Deinitialize s))
      \<and> Find (ActorToClassMap (Deinitialize s)) (Some h) = None"
    by (simp add: Deinitialize_facts Find_def)
qed (simp_all add: Deinitialize_facts pool_of_def Find_def)

subsection \<open>Reachable states\<close>

lemma reachable_inv: "reachable hst s \<Longrightarrow> pooler_inv s"
proof (induction rule: reachable.induct)
  case (start world actors lg)
  show ?case by (rule pooler_inv_NewPooler)
next
  case (acquire s c loc rot pt a s')
  then show ?case by (blast intro: pooler_inv_SpawnObject)
next
  case (release s a)
  then show ?case by (simp add: pooler_inv_ReturnObjectToPool)
next
  case (teardown s)
  then show ?case by (simp add: pooler_inv_Deinitialize)
next
  case (world s actors)
  then show ?case by (simp add: pooler_inv_world)
qed

lemma reachable_InitializePool_loop:
  "reachable hst s \<Longrightarrow> InitializePool_loop hst s c pt i n = Inr s' \<Longrightarrow> reachable hst s'"
proof (induction hst s c pt i n rule: InitializePool_loop.induct)
  case (1 hst s c pt i n)
  show ?case
  proof (cases "i < n")
    case False
    with "1.prems" show ?thesis by (simp add: InitializePool_loop.simps)
  next
    case True
    from "1.prems"(2) True obtain a s1 where
      sp: "SpawnObject hst s c ZeroVector ZeroRotator pt = Inr (a, s1)"
      and rest: "InitializePool_loop hst (if a \<noteq> None then ReturnObjectToPool s1 a else s1)
                   c pt (i + 1) n = Inr s'"
      by (subst (asm) InitializePool_loop.simps) (auto split: sum.splits)
    have r1: "reachable hst s1" using "1.prems"(1) sp by (rule reachable.acquire)
    then have "reachable hst (if a \<noteq> None then ReturnObjectToPool s1 a else s1)"
      by (simp add: reachable.release)
    with "1.IH" [OF True sp refl] rest show ?thesis by simp
  qed
qed

lemma reachable_InitializePool:
  "reachable hst s \<Longrightarrow> InitializePool hst s c n pt = Inr s' \<Longrightarrow> reachable hst s'"
  by (auto simp: InitializePool_def split: if_splits dest: reachable_InitializePool_loop)

lemma demo_reachable:
  "reachable WillingHost DemoActive" "reachable WillingHost DemoPooled"
proof -
  have "reachable WillingHost FreshPooler" unfolding FreshPooler_def by (rule reachable.start)
  then show a: "reachable WillingHost DemoActive" using demo_acquire by (rule reachable.acquire)
  then show "reachable WillingHost DemoPooled"
    unfolding DemoPooled_def by (rule reachable.release)
qed

lemma count_list_distinct:
  "distinct xs \<Longrightarrow> count_list xs x = (if x \<in> set xs then 1 else 0)"
  by (induction xs) auto

lemma SetActorActive_members:
  "SetActorActive (s\<lparr>ObjectPools := m\<rparr>) p b = (SetActorActive s p b)\<lparr>ObjectPools := m\<rparr>"
  by (cases p) (simp_all add: SetActorActive_def IsValid_def update_actor_def)

lemma SetActorActive_idem: "SetActorActive (SetActorActive s p b) p b = SetActorActive s p b"
proof (cases "IsValid s p")
  case False
  then show ?thesis by (simp add: SetActorActive_def)
next
  case True
  then obtain h where p: "p = Some h" by (cases p) simp_all
  have v: "IsValid (SetActorActive s p b) p" using True by simp
  show ?thesis
    using True v unfolding p
    by (subst (1) SetActorActive_def, simp only: if_False not_True_eq_False simp_thms option.case)
       (simp add: SetActorActive_def update_actor_def IsValid_Some comp_def)
qed

section \<open>Properties of the reachable states\<close>

subsection \<open>Releasing twice\<close>

text \<open>
  C5. In any state the pooler can reach, returning a valid recorded actor a second time
  changes nothing at all: the state after two calls of \<^verbatim>\<open>ReturnObjectToPool\<close> is the state
  after one, and the actor occurs exactly once in the pool of its class.
\<close>

theorem release_twice_one_entry:
  assumes "reachable hst s" and "IsValid s (Some x)"
    and "Find (ActorToClassMap s) (Some x) = Some (Some T)"
  shows "ReturnObjectToPool (ReturnObjectToPool s (Some x)) (Some x) = ReturnObjectToPool s (Some x)
    \<and> count_list (pool_of (ReturnObjectToPool (ReturnObjectToPool s (Some x)) (Some x)) (Some T))
         (Some x) = 1"
proof -
  let ?s1 = "ReturnObjectToPool s (Some x)"
  note f = ReturnObjectToPool_recorded_facts [OF assms(2,3)]
  have v1: "IsValid ?s1 (Some x)" using assms(2) by (simp add: f(10))
  have r1: "Find (ActorToClassMap ?s1) (Some x) = Some (Some T)" using assms(3) by (simp add: f(4))
  obtain m P where fa: "FindOrAdd (ObjectPools s) (Some T) = (m, P)"
    by (cases "FindOrAdd (ObjectPools s) (Some T)")
  let ?P = "P\<lparr>InactiveActors := AddUnique (pool_of s (Some T)) (Some x)\<rparr>"
  have eq1: "?s1 = (SetActorActive s (Some x) False)\<lparr>ObjectPools := Add m (Some T) ?P\<rparr>"
    using ReturnObjectToPool_recorded [OF assms(2,3)] by (simp add: fa)
  have find1: "Find (ObjectPools ?s1) (Some T) = Some ?P" by (simp add: eq1 Find_Add)
  then have fa1: "FindOrAdd (ObjectPools ?s1) (Some T) = (ObjectPools ?s1, ?P)"
    by (simp add: FindOrAdd_def Find_def)
  have pool1: "pool_of ?s1 (Some T) = AddUnique (pool_of s (Some T)) (Some x)"
    by (simp add: f(1))
  have "ReturnObjectToPool ?s1 (Some x) =
      (SetActorActive ?s1 (Some x) False)\<lparr>ObjectPools := Add (ObjectPools ?s1) (Some T) ?P\<rparr>"
    using ReturnObjectToPool_recorded [OF v1 r1] by (simp add: fa1 pool1 AddUnique_idem)
  also have "SetActorActive ?s1 (Some x) False = ?s1"
    by (simp add: eq1 SetActorActive_members SetActorActive_idem)
  also have "Add (ObjectPools ?s1) (Some T) ?P = ObjectPools ?s1"
    by (simp add: eq1 Add_def)
  finally have idem: "ReturnObjectToPool ?s1 (Some x) = ?s1" by simp
  have "distinct (pool_of ?s1 (Some T))"
    using pooler_invD(2) [OF reachable_inv [OF reachable.release [OF assms(1)]]] .
  then have "count_list (pool_of ?s1 (Some T)) (Some x) = 1"
    by (simp add: count_list_distinct pool1)
  with idem show ?thesis by simp
qed

theorem release_twice_one_entry_witness:
  "reachable WillingHost DemoActive \<and> IsValid DemoActive (Some 0)
   \<and> Find (ActorToClassMap DemoActive) (Some 0) = Some (Some 7)
   \<and> ReturnObjectToPool (ReturnObjectToPool DemoActive (Some 0)) (Some 0)
       = ReturnObjectToPool DemoActive (Some 0)
   \<and> count_list (pool_of (ReturnObjectToPool (ReturnObjectToPool DemoActive (Some 0)) (Some 0))
        (Some 7)) (Some 0) = 1"
proof -
  have v: "IsValid DemoActive (Some 0)" by code_simp
  have r: "Find (ActorToClassMap DemoActive) (Some 0) = Some (Some 7)" by code_simp
  from release_twice_one_entry [OF demo_reachable(1) v r] demo_reachable(1) v r
  show ?thesis by blast
qed

lemma AllPooled_iff:
  assumes "distinct (map fst (ObjectPools s))"
  shows "a \<in> set (AllPooled s) \<longleftrightarrow> (\<exists>c. a \<in> set (pool_of s c))"
proof
  assume "a \<in> set (AllPooled s)"
  then obtain c P where cp: "(c, P) \<in> set (ObjectPools s)" and a: "a \<in> set (InactiveActors P)"
    by (auto simp: AllPooled_def)
  from cp assms have "Find (ObjectPools s) c = Some P" by (simp add: Find_def)
  with a have "a \<in> set (pool_of s c)" by (simp add: pool_of_def)
  then show "\<exists>c. a \<in> set (pool_of s c)" ..
next
  assume "\<exists>c. a \<in> set (pool_of s c)"
  then obtain c where a: "a \<in> set (pool_of s c)" ..
  show "a \<in> set (AllPooled s)"
  proof (cases "Find (ObjectPools s) c")
    case None
    with a show ?thesis by (simp add: pool_of_def)
  next
    case (Some P)
    then have "(c, P) \<in> set (ObjectPools s)" by (simp add: Find_def map_of_SomeD)
    moreover from a Some have "a \<in> set (InactiveActors P)" by (simp add: pool_of_def)
    ultimately show ?thesis by (force simp: AllPooled_def)
  qed
qed

lemma PopValid_member:
  "PopValid s xs = (q, rest) \<Longrightarrow> q \<noteq> None \<Longrightarrow> \<exists>stale. xs = rest @ q # stale"
proof (induction xs arbitrary: q rest rule: rev_induct)
  case Nil
  then show ?case by simp
next
  case (snoc x xs)
  show ?case
  proof (cases "IsValid s x")
    case True
    with snoc.prems show ?thesis by simp
  next
    case False
    with snoc.prems have "PopValid s xs = (q, rest)" by simp
    from snoc.IH [OF this snoc.prems(2)] show ?thesis by auto
  qed
qed

lemma ActorToClassMap_ReturnObjectToPool:
  "ActorToClassMap (ReturnObjectToPool s p) = ActorToClassMap s"
proof (cases rule: ReturnObjectToPool_cases [of s p])
  case invalid
  then show ?thesis by simp
next
  case (recorded y U)
  then show ?thesis by (simp add: ReturnObjectToPool_recorded_facts)
next
  case (foreign y)
  then show ?thesis by (simp add: ReturnObjectToPool_foreign_facts)
qed

text \<open>What \<^verbatim>\<open>SpawnObject\<close> does to the ownership index of a state that satisfies the invariant.\<close>

lemma SpawnObject_index:
  assumes inv: "pooler_inv s" and res: "SpawnObject hst s c loc rot pt = Inr (q, s')"
  shows "Find (ActorToClassMap s) a = Some k \<Longrightarrow> Find (ActorToClassMap s') a = Some k"
    and "q \<noteq> None \<Longrightarrow> Find (ActorToClassMap s') q = Some c"
    and "q \<noteq> None \<Longrightarrow> q \<notin> set (pool_of s' c)"
proof -
  note i = pooler_invD [OF inv]
  have all: "(Find (ActorToClassMap s) a = Some k \<longrightarrow> Find (ActorToClassMap s') a = Some k)
      \<and> (q \<noteq> None \<longrightarrow> Find (ActorToClassMap s') q = Some c \<and> q \<notin> set (pool_of s' c))"
  proof (cases "c = None \<or> \<not> WorldAvailable s")
    case True
    with res have "s' = s" "q = None" by auto
    then show ?thesis by simp
  next
    case False
    then obtain cls where c: "c = Some cls" and w: "WorldAvailable s" by auto
    note r = SpawnObject_result [OF res [unfolded c] w]
    let ?q = "fst (PopValid s (pool_of s (Some cls)))"
    show ?thesis
    proof (cases "?q = None")
      case False
      from r(9) [OF False] have q: "q = ?q" and m: "ActorToClassMap s' = ActorToClassMap s"
        by simp_all
      have pv: "PopValid s (pool_of s (Some cls)) = (q, pool_of s' (Some cls))"
        using r(2) by (simp add: q)
      from PopValid_member [OF pv] False q
      obtain stale where split: "pool_of s (Some cls) = pool_of s' (Some cls) @ q # stale" by auto
      then have "q \<in> set (pool_of s (Some cls))" by simp
      from i(3) [OF this] have "Find (ActorToClassMap s') q = Some c" by (simp add: m c)
      moreover from i(2) [of "Some cls"] split have "q \<notin> set (pool_of s' c)" by (simp add: c)
      ultimately show ?thesis by (simp add: m)
    next
      case True
      then have "PopValid s (pool_of s (Some cls)) = (None, pool_of s' (Some cls))"
        using r(2) by simp
      from PopValid_exhausted [OF this] have empty: "pool_of s' c = []" by (simp add: c)
      have "a \<noteq> Some (length (Actors s))" if "Find (ActorToClassMap s) a = Some k"
        using i(4) [OF that] by auto
      with r(10) [OF True] empty show ?thesis by (auto simp: Find_Add c)
    qed
  qed
  show "Find (ActorToClassMap s) a = Some k \<Longrightarrow> Find (ActorToClassMap s') a = Some k"
    and "q \<noteq> None \<Longrightarrow> Find (ActorToClassMap s') q = Some c"
    and "q \<noteq> None \<Longrightarrow> q \<notin> set (pool_of s' c)"
    using all by simp_all
qed

subsection \<open>Type fidelity\<close>

text \<open>
  C6. In any state the pooler can reach, whatever calls and engine events led there, an
  actor recorded under class \<open>T\<close> sits in no pool but that of \<open>T\<close>. Returning it, if it is
  valid, puts it into the pool of \<open>T\<close> and leaves every other pool as it was. No call of
  \<^verbatim>\<open>ReturnObjectToPool\<close>, with whatever argument, changes the ownership index, and no call
  of \<^verbatim>\<open>SpawnObject\<close> changes the class the actor is recorded under; the actor that
  \<^verbatim>\<open>SpawnObject\<close> returns is recorded under the class asked for. \<^verbatim>\<open>Deinitialize\<close> empties
  the index.
\<close>

theorem type_fidelity:
  assumes "reachable hst s" and "Find (ActorToClassMap s) (Some x) = Some (Some T)"
  shows "(\<forall>c. Some x \<in> set (pool_of s c) \<longrightarrow> c = Some T)
    \<and> (IsValid s (Some x) \<longrightarrow>
          Some x \<in> set (pool_of (ReturnObjectToPool s (Some x)) (Some T))
          \<and> (\<forall>c. c \<noteq> Some T \<longrightarrow>
                Find (ObjectPools (ReturnObjectToPool s (Some x))) c = Find (ObjectPools s) c))
    \<and> (\<forall>p. ActorToClassMap (ReturnObjectToPool s p) = ActorToClassMap s)
    \<and> (\<forall>c loc rot pt q s'. SpawnObject hst s c loc rot pt = Inr (q, s') \<longrightarrow>
          Find (ActorToClassMap s') (Some x) = Some (Some T)
          \<and> (q \<noteq> None \<longrightarrow> Find (ActorToClassMap s') q = Some c))
    \<and> ActorToClassMap (Deinitialize s) = []"
proof -
  note inv = reachable_inv [OF assms(1)]
  note i = pooler_invD [OF inv]
  have a: "\<forall>c. Some x \<in> set (pool_of s c) \<longrightarrow> c = Some T"
  proof (intro allI impI)
    fix c assume "Some x \<in> set (pool_of s c)"
    from i(3) [OF this] assms(2) show "c = Some T" by simp
  qed
  have b: "IsValid s (Some x) \<longrightarrow>
          Some x \<in> set (pool_of (ReturnObjectToPool s (Some x)) (Some T))
          \<and> (\<forall>c. c \<noteq> Some T \<longrightarrow>
                Find (ObjectPools (ReturnObjectToPool s (Some x))) c = Find (ObjectPools s) c)"
  proof
    assume v: "IsValid s (Some x)"
    note f = ReturnObjectToPool_recorded_facts [OF v assms(2)]
    show "Some x \<in> set (pool_of (ReturnObjectToPool s (Some x)) (Some T))
          \<and> (\<forall>c. c \<noteq> Some T \<longrightarrow>
                Find (ObjectPools (ReturnObjectToPool s (Some x))) c = Find (ObjectPools s) c)"
      using f(2) by (simp add: f(1))
  qed
  have c: "\<forall>p. ActorToClassMap (ReturnObjectToPool s p) = ActorToClassMap s"
    by (simp add: ActorToClassMap_ReturnObjectToPool)
  have d: "\<forall>c loc rot pt q s'. SpawnObject hst s c loc rot pt = Inr (q, s') \<longrightarrow>
          Find (ActorToClassMap s') (Some x) = Some (Some T)
          \<and> (q \<noteq> None \<longrightarrow> Find (ActorToClassMap s') q = Some c)"
  proof (intro allI impI)
    fix c loc rot pt q s'
    assume res: "SpawnObject hst s c loc rot pt = Inr (q, s')"
    from SpawnObject_index(1) [OF inv res assms(2)] SpawnObject_index(2) [OF inv res]
    show "Find (ActorToClassMap s') (Some x) = Some (Some T)
          \<and> (q \<noteq> None \<longrightarrow> Find (ActorToClassMap s') q = Some c)" by simp
  qed
  have e: "ActorToClassMap (Deinitialize s) = []" by (rule Deinitialize_facts)
  from a b c d e show ?thesis by (intro conjI)
qed

theorem type_fidelity_witness:
  "reachable WillingHost DemoActive
   \<and> Find (ActorToClassMap DemoActive) (Some 0) = Some (Some 7)
   \<and> IsValid DemoActive (Some 0)
   \<and> SpawnObject WillingHost DemoActive (Some 9) ZeroVector ZeroRotator Billboards
       = Inr (Some 3, DemoSecond)
   \<and> Some 0 \<notin> set (pool_of DemoActive (Some 9))
   \<and> Some 0 \<in> set (pool_of (ReturnObjectToPool DemoActive (Some 0)) (Some 7))
   \<and> Find (ObjectPools (ReturnObjectToPool DemoActive (Some 0))) (Some 9)
       = Find (ObjectPools DemoActive) (Some 9)
   \<and> (\<forall>p. ActorToClassMap (ReturnObjectToPool DemoActive p) = ActorToClassMap DemoActive)
   \<and> Find (ActorToClassMap DemoSecond) (Some 0) = Some (Some 7)
   \<and> Find (ActorToClassMap DemoSecond) (Some 3) = Some (Some 9)
   \<and> ActorToClassMap (Deinitialize DemoActive) = []"
proof -
  have v: "IsValid DemoActive (Some 0)" by code_simp
  have r: "Find (ActorToClassMap DemoActive) (Some 0) = Some (Some 7)" by code_simp
  have sp: "SpawnObject WillingHost DemoActive (Some 9) ZeroVector ZeroRotator Billboards
       = Inr (Some 3, DemoSecond)"
    unfolding DemoSecond_def by code_simp
  note t = type_fidelity [OF demo_reachable(1) r]
  from t have "SpawnObject WillingHost DemoActive (Some 9) ZeroVector ZeroRotator Billboards
       = Inr (Some 3, DemoSecond) \<longrightarrow>
     Find (ActorToClassMap DemoSecond) (Some 0) = Some (Some 7)
     \<and> (Some 3 \<noteq> None \<longrightarrow> Find (ActorToClassMap DemoSecond) (Some 3) = Some (Some 9))"
    by blast
  with sp have a: "Find (ActorToClassMap DemoSecond) (Some 0) = Some (Some 7)"
    and b: "Find (ActorToClassMap DemoSecond) (Some 3) = Some (Some 9)" by simp_all
  from t have "Some 0 \<in> set (pool_of DemoActive (Some 9)) \<longrightarrow> Some 9 = Some (7::nat)"
    by blast
  then have c: "Some 0 \<notin> set (pool_of DemoActive (Some 9))" by auto
  from t v
  have d: "Some 0 \<in> set (pool_of (ReturnObjectToPool DemoActive (Some 0)) (Some 7))"
    and e: "Find (ObjectPools (ReturnObjectToPool DemoActive (Some 0))) (Some 9)
       = Find (ObjectPools DemoActive) (Some 9)" by simp_all
  from t have f: "\<forall>p. ActorToClassMap (ReturnObjectToPool DemoActive p) = ActorToClassMap DemoActive"
    and g: "ActorToClassMap (Deinitialize DemoActive) = []" by blast+
  from demo_reachable(1) r v sp c d e f g a b show ?thesis by (intro conjI)
qed

subsection \<open>Foreign and invalid actors\<close>

text \<open>
  C7. \<^verbatim>\<open>ReturnObjectToPool\<close> of an invalid pointer changes nothing. In any state the pooler
  can reach, \<^verbatim>\<open>ReturnObjectToPool\<close> of a valid actor that is not recorded under a class
  writes one warning, destroys the actor, and leaves the pools as they were; the actor is in
  no pool afterwards.
\<close>

theorem release_foreign_or_invalid:
  "(\<not> IsValid s p \<longrightarrow> ReturnObjectToPool s p = s)
   \<and> (reachable hst s \<and> IsValid s (Some x)
        \<and> (\<forall>T. Find (ActorToClassMap s) (Some x) \<noteq> Some (Some T)) \<longrightarrow>
       Log (ReturnObjectToPool s (Some x)) = Log s @ [NotPooledWarning s (Some x)]
       \<and> \<not> IsValid (ReturnObjectToPool s (Some x)) (Some x)
       \<and> ObjectPools (ReturnObjectToPool s (Some x)) = ObjectPools s
       \<and> Some x \<notin> set (AllPooled (ReturnObjectToPool s (Some x)))
       \<and> (\<forall>c. Some x \<notin> set (pool_of (ReturnObjectToPool s (Some x)) c)))"
proof (rule conjI; rule impI)
  assume "\<not> IsValid s p"
  then show "ReturnObjectToPool s p = s" by (rule ReturnObjectToPool_invalid)
next
  assume a: "reachable hst s \<and> IsValid s (Some x)
        \<and> (\<forall>T. Find (ActorToClassMap s) (Some x) \<noteq> Some (Some T))"
  then have v: "IsValid s (Some x)"
    and n: "\<And>T. Find (ActorToClassMap s) (Some x) \<noteq> Some (Some T)" by simp_all
  note f = ReturnObjectToPool_foreign_facts [OF v n]
  note i = pooler_invD [OF reachable_inv [of hst s]]
  have nowhere: "Some x \<notin> set (pool_of s c)" for c
  proof
    assume "Some x \<in> set (pool_of s c)"
    from i(3) [OF _ this] a
    have cc: "c \<noteq> None \<and> Find (ActorToClassMap s) (Some x) = Some c" by blast
    then obtain U where "c = Some U" by (cases c) auto
    with cc n [of U] show False by simp
  qed
  have p: "pool_of (ReturnObjectToPool s (Some x)) c = pool_of s c" for c
    by (simp add: pool_of_def f(1))
  have "distinct (map fst (ObjectPools (ReturnObjectToPool s (Some x))))"
    using i(1) a by (simp add: f(1))
  from AllPooled_iff [OF this] nowhere p
  have "Some x \<notin> set (AllPooled (ReturnObjectToPool s (Some x)))" by simp
  with nowhere p f(1,6,8)
  show "Log (ReturnObjectToPool s (Some x)) = Log s @ [NotPooledWarning s (Some x)]
       \<and> \<not> IsValid (ReturnObjectToPool s (Some x)) (Some x)
       \<and> ObjectPools (ReturnObjectToPool s (Some x)) = ObjectPools s
       \<and> Some x \<notin> set (AllPooled (ReturnObjectToPool s (Some x)))
       \<and> (\<forall>c. Some x \<notin> set (pool_of (ReturnObjectToPool s (Some x)) c))"
    by simp
qed

lemma demo_foreign_reachable: "reachable WillingHost DemoForeign"
  unfolding DemoForeign_def by (rule reachable.world [OF demo_reachable(2)]) simp

theorem release_foreign_or_invalid_witness:
  "\<not> IsValid DemoForeign (Some 4) \<and> ReturnObjectToPool DemoForeign (Some 4) = DemoForeign
   \<and> reachable WillingHost DemoForeign \<and> IsValid DemoForeign (Some 3)
   \<and> (\<forall>T. Find (ActorToClassMap DemoForeign) (Some 3) \<noteq> Some (Some T))
   \<and> Log (ReturnObjectToPool DemoForeign (Some 3))
       = Log DemoForeign @ [NotPooledWarning DemoForeign (Some 3)]
   \<and> \<not> IsValid (ReturnObjectToPool DemoForeign (Some 3)) (Some 3)
   \<and> ObjectPools (ReturnObjectToPool DemoForeign (Some 3)) = ObjectPools DemoForeign
   \<and> Some 3 \<notin> set (AllPooled (ReturnObjectToPool DemoForeign (Some 3)))
   \<and> (\<forall>c. Some 3 \<notin> set (pool_of (ReturnObjectToPool DemoForeign (Some 3)) c))"
proof -
  have i: "\<not> IsValid DemoForeign (Some 4)" by code_simp
  have v: "IsValid DemoForeign (Some 3)" by code_simp
  have "Find (ActorToClassMap DemoForeign) (Some 3) = None" by code_simp
  then have n: "\<forall>T. Find (ActorToClassMap DemoForeign) (Some 3) \<noteq> Some (Some T)" by simp
  note t = release_foreign_or_invalid [of DemoForeign "Some 4" WillingHost 3]
  from t i v n demo_foreign_reachable show ?thesis by blast
qed

subsection \<open>Teardown and the actors that are out\<close>

text \<open>
  C10. In any state the pooler can reach, take a valid actor that is recorded and sits in
  no pool. \<^verbatim>\<open>Deinitialize\<close> leaves it valid and empties the ownership index, so that a later
  \<^verbatim>\<open>ReturnObjectToPool\<close> of it takes the branch of the unrecorded actor: a warning, and the
  actor destroyed. The only actors that \<^verbatim>\<open>Deinitialize\<close> makes invalid are those that sit
  in a pool and the main root.
\<close>

theorem teardown_leaves_active_instances:
  assumes "reachable hst s" and "IsValid s (Some x)"
    and "Find (ActorToClassMap s) (Some x) = Some (Some T)"
    and "\<forall>c. Some x \<notin> set (pool_of s c)"
  shows "IsValid (Deinitialize s) (Some x)
    \<and> ActorToClassMap (Deinitialize s) = []
    \<and> ReturnObjectToPool (Deinitialize s) (Some x)
        = Destroy ((Deinitialize s)\<lparr>Log := Log s @ [NotPooledWarning (Deinitialize s) (Some x)]\<rparr>)
            (Some x)
    \<and> \<not> IsValid (ReturnObjectToPool (Deinitialize s) (Some x)) (Some x)
    \<and> ObjectPools (ReturnObjectToPool (Deinitialize s) (Some x)) = []
    \<and> (\<forall>h. IsValid s (Some h) \<and> \<not> IsValid (Deinitialize s) (Some h) \<longrightarrow>
          Some h \<in> set (AllPooled s) \<or> MainPoolRoot s = Some h)"
proof -
  note i = pooler_invD [OF reachable_inv [OF assms(1)]]
  note d = Deinitialize_facts [of s]
  have "Some x \<notin> set (AllPooled s)"
    using AllPooled_iff [OF i(1)] assms(4) by simp
  moreover have "MainPoolRoot s \<noteq> Some x"
    using i(5) [of x] assms(3) by auto
  ultimately have v: "IsValid (Deinitialize s) (Some x)"
    using assms(2) by (simp add: d(8))
  have n: "Find (ActorToClassMap (Deinitialize s)) (Some x) \<noteq> Some (Some U)" for U
    by (simp add: d(2) Find_def)
  note f = ReturnObjectToPool_foreign_facts [OF v n]
  have "ReturnObjectToPool (Deinitialize s) (Some x)
        = Destroy ((Deinitialize s)\<lparr>Log := Log s @ [NotPooledWarning (Deinitialize s) (Some x)]\<rparr>)
            (Some x)"
    using ReturnObjectToPool_foreign [OF v n] by (simp add: d(6))
  moreover have "\<forall>h. IsValid s (Some h) \<and> \<not> IsValid (Deinitialize s) (Some h) \<longrightarrow>
          Some h \<in> set (AllPooled s) \<or> MainPoolRoot s = Some h"
    by (auto simp: d(8))
  ultimately show ?thesis
    using v d(1,2) f(1,8) by simp
qed

lemma demo_second_reachable: "reachable WillingHost DemoSecond"
proof -
  have "SpawnObject WillingHost DemoActive (Some 9) ZeroVector ZeroRotator Billboards
       = Inr (Some 3, DemoSecond)"
    unfolding DemoSecond_def by code_simp
  with demo_reachable(1) show ?thesis by (rule reachable.acquire)
qed

theorem teardown_leaves_active_instances_witness:
  "reachable WillingHost DemoSecond \<and> IsValid DemoSecond (Some 0)
   \<and> Find (ActorToClassMap DemoSecond) (Some 0) = Some (Some 7)
   \<and> (\<forall>c. Some 0 \<notin> set (pool_of DemoSecond c))
   \<and> IsValid (Deinitialize DemoSecond) (Some 0)
   \<and> ActorToClassMap (Deinitialize DemoSecond) = []
   \<and> \<not> IsValid (ReturnObjectToPool (Deinitialize DemoSecond) (Some 0)) (Some 0)
   \<and> ObjectPools (ReturnObjectToPool (Deinitialize DemoSecond) (Some 0)) = []"
proof -
  have v: "IsValid DemoSecond (Some 0)" by code_simp
  have r: "Find (ActorToClassMap DemoSecond) (Some 0) = Some (Some 7)" by code_simp
  have "AllPooled DemoSecond = []" by code_simp
  then have "\<forall>a. a \<notin> set (AllPooled DemoSecond)" by simp
  with AllPooled_iff [OF pooler_invD(1) [OF reachable_inv [OF demo_second_reachable]]]
  have n: "\<forall>c. Some 0 \<notin> set (pool_of DemoSecond c)" by blast
  from teardown_leaves_active_instances [OF demo_second_reachable v r n]
    demo_second_reachable v r n
  show ?thesis by blast
qed

subsection \<open>Reuse\<close>

lemma SpawnObject_reuse:
  assumes "WorldAvailable s" and "PopValid s (pool_of s (Some T)) = (Some h, rest)"
  shows "\<exists>s'. SpawnObject hst s (Some T) loc rot pt = Inr (Some h, s')"
proof -
  obtain q s1 where take: "TakeFromPool s (Some T) = (q, s1)"
    by (cases "TakeFromPool s (Some T)")
  from TakeFromPool_pools(1) [OF take] assms(2) have "q = Some h" by simp
  with assms(1) take show ?thesis
    by (simp add: SpawnObject_def PlaceAndActivate_def)
qed










text \<open>
  The pool is a stack: of two actors of the class returned one after the other, the next
  two calls of \<^verbatim>\<open>SpawnObject\<close> give back the second, then the first.
\<close>

lemma reuse_order_is_stack:
  assumes w: "WorldAvailable s"
    and vx: "IsValid s (Some x)" and vy: "IsValid s (Some y)" and ne: "x \<noteq> y"
    and rx: "Find (ActorToClassMap s) (Some x) = Some (Some T)"
    and ry: "Find (ActorToClassMap s) (Some y) = Some (Some T)"
    and ox: "Some x \<notin> set (pool_of s (Some T))" and oy: "Some y \<notin> set (pool_of s (Some T))"
  shows "\<exists>s1 s2.
      SpawnObject hst (ReturnObjectToPool (ReturnObjectToPool s (Some x)) (Some y)) (Some T)
        loc rot pt = Inr (Some y, s1)
      \<and> SpawnObject hst s1 (Some T) loc' rot' pt' = Inr (Some x, s2)
      \<and> pool_of s2 (Some T) = pool_of s (Some T)"
proof -
  let ?a = "ReturnObjectToPool s (Some x)"
  let ?b = "ReturnObjectToPool ?a (Some y)"
  note fa = ReturnObjectToPool_recorded_facts [OF vx rx]
  have pa: "pool_of ?a (Some T) = pool_of s (Some T) @ [Some x]"
    using ox by (simp add: fa(1) AddUnique_def)
  have vya: "IsValid ?a (Some y)" using vy by (simp add: fa(10))
  have rya: "Find (ActorToClassMap ?a) (Some y) = Some (Some T)" using ry by (simp add: fa(4))
  note fb = ReturnObjectToPool_recorded_facts [OF vya rya]
  have pb: "pool_of ?b (Some T) = (pool_of s (Some T) @ [Some x]) @ [Some y]"
    using oy ne by (simp add: fb(1) pa AddUnique_def)
  have vb: "IsValid ?b (Some y)" "IsValid ?b (Some x)"
    using vx vy by (simp_all add: fb(10) fa(10))
  have wb: "WorldAvailable ?b" using w by (simp add: fb(7) fa(7))
  have pvb: "PopValid ?b (pool_of ?b (Some T)) = (Some y, pool_of s (Some T) @ [Some x])"
    unfolding pb using vb(1) by (simp only: PopValid_snoc if_True)
  from SpawnObject_reuse [OF wb pvb]
  obtain s1 where r1: "SpawnObject hst ?b (Some T) loc rot pt = Inr (Some y, s1)" by blast
  note q1 = SpawnObject_result [OF r1 wb]
  from q1(2) pvb have p1: "pool_of s1 (Some T) = pool_of s (Some T) @ [Some x]" by simp
  from q1(1) vb(2) have v1: "IsValid s1 (Some x)" by (rule grows_IsValid)
  have w1: "WorldAvailable s1" using q1(6) wb by simp
  have pv1: "PopValid s1 (pool_of s1 (Some T)) = (Some x, pool_of s (Some T))"
    unfolding p1 using v1 by (simp only: PopValid_snoc if_True)
  from SpawnObject_reuse [OF w1 pv1]
  obtain s2 where r2: "SpawnObject hst s1 (Some T) loc' rot' pt' = Inr (Some x, s2)" by blast
  note q2 = SpawnObject_result [OF r2 w1]
  from q2(2) pv1 have "pool_of s2 (Some T) = pool_of s (Some T)" by simp
  with r1 r2 show ?thesis by blast
qed

section \<open>Where the code departs from its documentation\<close>

subsection \<open>Prewarming\<close>

lemma InitializePool_noop:
  "InitializePool hst s None Count pt = Inr s"
  "Count \<le> 0 \<Longrightarrow> InitializePool hst s c Count pt = Inr s"
  by (simp_all add: InitializePool_def InitializePool_loop.simps)

lemma SpawnActor_willing:
  assumes "\<forall>actors cls. hst actors cls \<noteq> None"
  shows "\<exists>s'. SpawnActor hst s cls loc rot = (Some (length (Actors s)), s')"
proof -
  from assms have "hst (Actors s) cls \<noteq> None" by blast
  then obtain a where "hst (Actors s) cls = Some a" by (cases "hst (Actors s) cls") simp_all
  then show ?thesis by (simp add: SpawnActor_def)
qed

lemma GetOrCreatePoolRoot_willing:
  assumes "\<forall>actors cls. hst actors cls \<noteq> None"
  shows "\<exists>Root s'. GetOrCreatePoolRoot hst s pt = Inr (Root, s')"
proof -
  have create: "\<exists>Root s'. CreatePoolRoot hst t pt = Inr (Root, s')" for t
    using SpawnActor_willing [OF assms, of t AActor_StaticClass ZeroVector ZeroRotator]
    by (auto simp: CreatePoolRoot_def Let_def)
  have "\<exists>s1. EnsureMainPoolRoot hst s = Inr s1"
    using SpawnActor_willing [OF assms, of s AActor_StaticClass ZeroVector ZeroRotator]
    by (auto simp: EnsureMainPoolRoot_def)
  then obtain s1 where "EnsureMainPoolRoot hst s = Inr s1" ..
  then show ?thesis
    using create [of s1] by (auto simp: GetOrCreatePoolRoot_def split: option.split)
qed

lemma SpawnObject_willing:
  assumes "\<forall>actors cls. hst actors cls \<noteq> None" and "WorldAvailable s"
  shows "\<exists>x s'. SpawnObject hst s (Some T) loc rot pt = Inr (Some x, s')"
proof -
  obtain q s1 where take: "TakeFromPool s (Some T) = (q, s1)"
    by (cases "TakeFromPool s (Some T)")
  show ?thesis
  proof (cases q)
    case (Some h)
    with assms(2) take show ?thesis by (simp add: SpawnObject_def PlaceAndActivate_def)
  next
    case None
    from SpawnActor_willing [OF assms(1), of s1 T loc rot]
    obtain s2 where sp: "SpawnActor hst s1 T loc rot = (Some (length (Actors s1)), s2)" ..
    let ?s2 = "s2\<lparr>ActorToClassMap :=
        Add (ActorToClassMap s2) (Some (length (Actors s1))) (Some T)\<rparr>"
    from GetOrCreatePoolRoot_willing [OF assms(1), of ?s2 pt]
    obtain Root s3 where "GetOrCreatePoolRoot hst ?s2 pt = Inr (Root, s3)" by blast
    with assms(2) take None sp show ?thesis
      by (simp add: SpawnObject_def SpawnNew_def PlaceAndActivate_def)
  qed
qed

text \<open>Once the pool holds one valid actor, every further round takes it out and puts it back.\<close>

lemma InitializePool_loop_keeps_one:
  assumes "WorldAvailable s" and "pool_of s (Some T) = [Some x]" and "IsValid s (Some x)"
    and "Find (ActorToClassMap s) (Some x) = Some (Some T)"
  shows "\<exists>s'. InitializePool_loop hst s (Some T) pt i n = Inr s'
           \<and> pool_of s' (Some T) = [Some x]"
  using assms
proof (induction hst s "Some T" pt i n rule: InitializePool_loop.induct)
  case (1 hst s pt i n)
  show ?case
  proof (cases "i < n")
    case False
    with "1.prems" show ?thesis by (simp add: InitializePool_loop.simps)
  next
    case True
    have pv: "PopValid s (pool_of s (Some T)) = (Some x, [])"
      using "1.prems"(2,3) PopValid_snoc [of s "[]" "Some x"] by simp
    from SpawnObject_reuse [OF "1.prems"(1) pv]
    obtain s1 where res: "SpawnObject hst s (Some T) ZeroVector ZeroRotator pt = Inr (Some x, s1)"
      by blast
    note r = SpawnObject_result [OF res "1.prems"(1)]
    from r(2) pv have p1: "pool_of s1 (Some T) = []" by simp
    from r(8) [OF refl] have v1: "IsValid s1 (Some x)" by simp
    from r(9) pv "1.prems"(4) have rec1: "Find (ActorToClassMap s1) (Some x) = Some (Some T)"
      by simp
    let ?s2 = "ReturnObjectToPool s1 (Some x)"
    note f = ReturnObjectToPool_recorded_facts [OF v1 rec1]
    have "WorldAvailable ?s2" using r(6) "1.prems"(1) by (simp add: f(7))
    moreover have "pool_of ?s2 (Some T) = [Some x]" by (simp add: f(1) p1 AddUnique_def)
    moreover have "IsValid ?s2 (Some x)" using v1 by (simp add: f(10))
    moreover have "Find (ActorToClassMap ?s2) (Some x) = Some (Some T)"
      using rec1 by (simp add: f(4))
    ultimately
    have "\<exists>s'. InitializePool_loop hst ?s2 (Some T) pt (i + 1) n = Inr s'
           \<and> pool_of s' (Some T) = [Some x]"
      using "1.hyps" [OF True res refl] by simp
    then show ?thesis
      using True res by (subst InitializePool_loop.simps) simp
  qed
qed

text \<open>
  With an engine that constructs whatever is asked, a world, and an empty pool for the
  class in a state the pooler can reach, \<^verbatim>\<open>InitializePool\<close> with any count from 1 on
  returns with exactly one actor in the pool.
\<close>

lemma prewarm_leaves_one_actor:
  assumes "reachable hst s" and "\<forall>actors cls. hst actors cls \<noteq> None"
    and "WorldAvailable s" and "pool_of s (Some T) = []" and "1 \<le> Count"
  shows "\<exists>s'. InitializePool hst s (Some T) Count pt = Inr s'
           \<and> length (pool_of s' (Some T)) = 1"
proof -
  from SpawnObject_willing [OF assms(2,3)]
  obtain x s1 where res: "SpawnObject hst s (Some T) ZeroVector ZeroRotator pt = Inr (Some x, s1)"
    by blast
  note r = SpawnObject_result [OF res assms(3)]
  from assms(4) have pv: "PopValid s (pool_of s (Some T)) = (None, [])" by simp
  with r(2) have p1: "pool_of s1 (Some T) = []" by simp
  from r(8) [OF refl] have v1: "IsValid s1 (Some x)" by simp
  from SpawnObject_index(2) [OF reachable_inv [OF assms(1)] res]
  have rec1: "Find (ActorToClassMap s1) (Some x) = Some (Some T)" by simp
  let ?s2 = "ReturnObjectToPool s1 (Some x)"
  note f = ReturnObjectToPool_recorded_facts [OF v1 rec1]
  have "WorldAvailable ?s2" using r(6) assms(3) by (simp add: f(7))
  moreover have "pool_of ?s2 (Some T) = [Some x]" by (simp add: f(1) p1 AddUnique_def)
  moreover have "IsValid ?s2 (Some x)" using v1 by (simp add: f(10))
  moreover have "Find (ActorToClassMap ?s2) (Some x) = Some (Some T)"
    using rec1 by (simp add: f(4))
  ultimately obtain s' where "InitializePool_loop hst ?s2 (Some T) pt 1 Count = Inr s'"
    and "pool_of s' (Some T) = [Some x]"
    using InitializePool_loop_keeps_one [of ?s2 T x hst pt 1 Count] by blast
  then show ?thesis
    using assms(5) res
    by (simp add: InitializePool_def) (subst InitializePool_loop.simps, simp)
qed

text \<open>
  C1. \<^verbatim>\<open>InitializePool\<close> of class 7 with a count of 5, on a new subsystem whose engine
  constructs whatever is asked: it returns, and the pool of class 7 then holds the single
  actor 0. Three actors exist: actor 0, the main root and the root of the category. Each
  round after the first takes actor 0 back out of the pool instead of constructing.
\<close>

theorem prewarm_five_leaves_one:
  "InitializePool WillingHost FreshPooler (Some 7) 5 GameObjects = Inr DemoPrewarmed
   \<and> pool_of FreshPooler (Some 7) = []
   \<and> pool_of DemoPrewarmed (Some 7) = [Some 0]
   \<and> ActorToClassMap DemoPrewarmed = [(Some 0, Some 7)]
   \<and> MainPoolRoot DemoPrewarmed = Some 1
   \<and> PoolRoots DemoPrewarmed = [(GameObjects, Some 2)]
   \<and> length (Actors DemoPrewarmed) = 3"
  unfolding DemoPrewarmed_def by code_simp

subsection \<open>Teardown\<close>

text \<open>
  What \<^verbatim>\<open>Deinitialize\<close> does destroy and forget: every pooled actor is invalid afterwards,
  and the members are those of a new subsystem once the main root is null. An actor that
  is neither pooled nor the main root keeps its validity, the category roots among them.
\<close>

lemma Deinitialize_destroys_pooled: "a \<in> set (AllPooled s) \<Longrightarrow> \<not> IsValid (Deinitialize s) a"
  by (simp add: Deinitialize_facts)

lemma Deinitialize_members_as_new:
  assumes "MainPoolRoot (Deinitialize s) = None"
  shows "Deinitialize s = NewPooler (WorldAvailable s) (Actors (Deinitialize s)) (Log s)"
  using assms by (intro pooler.equality) (simp_all add: NewPooler_def Deinitialize_facts)

lemma Deinitialize_spares_others:
  "IsValid s r \<Longrightarrow> r \<notin> set (AllPooled s) \<Longrightarrow> r \<noteq> MainPoolRoot s
     \<Longrightarrow> IsValid (Deinitialize s) r"
  by (simp add: Deinitialize_facts)

text \<open>
  C8. \<^verbatim>\<open>Deinitialize\<close> after one actor of class 7 was spawned in the category
  \<^verbatim>\<open>GameObjects\<close> and returned to its pool: the pooled actor 0 and the main root 1 are
  destroyed and the three maps are empty, but the root of the category, actor 2, is still
  valid. \<^verbatim>\<open>PoolRoots.Empty()\<close> forgets it and nothing destroys it.
\<close>

theorem teardown_leaves_category_root:
  "pool_of DemoPooled (Some 7) = [Some 0]
   \<and> MainPoolRoot DemoPooled = Some 1
   \<and> PoolRoots DemoPooled = [(GameObjects, Some 2)]
   \<and> IsValid DemoPooled (Some 2)
   \<and> ObjectPools (Deinitialize DemoPooled) = []
   \<and> ActorToClassMap (Deinitialize DemoPooled) = []
   \<and> PoolRoots (Deinitialize DemoPooled) = []
   \<and> MainPoolRoot (Deinitialize DemoPooled) = None
   \<and> \<not> IsValid (Deinitialize DemoPooled) (Some 0)
   \<and> \<not> IsValid (Deinitialize DemoPooled) (Some 1)
   \<and> IsValid (Deinitialize DemoPooled) (Some 2)"
  by code_simp

end
